theory Spec2Isabelle
  imports Main "HOL-Library.Word"
begin

section \<open>JavaScript strings, integers and exceptions\<close>

text \<open>
  Strings are lists of characters. A thrown exception is a value of \<open>js_error\<close>, and a
  function that may throw returns \<open>js_error + 'a\<close> with \<open>Inl\<close> for the exception.
  \<open>BigInt\<close> values are unbounded integers, so they are of type \<open>int\<close>.
\<close>

datatype js_error = SyntaxError | Error string

text \<open>\<open>s.padStart(n, c)\<close> for a one-character pad string.\<close>

definition padStart :: "nat \<Rightarrow> char \<Rightarrow> string \<Rightarrow> string" where
  "padStart n c s = replicate (n - length s) c @ s"

text \<open>\<open>s.slice(a, b)\<close> for indices \<open>0 \<le> a \<le> b\<close>: the end is cut at the length of \<open>s\<close>.\<close>

definition slice :: "nat \<Rightarrow> nat \<Rightarrow> string \<Rightarrow> string" where
  "slice a b s = take (b - a) (drop a s)"

text \<open>\<open>xs.join(sep)\<close>.\<close>

fun join :: "string \<Rightarrow> string list \<Rightarrow> string" where
  "join sep [] = []"
| "join sep [x] = x"
| "join sep (x # y # ys) = x @ sep @ join sep (y # ys)"

text \<open>\<open>s.indexOf(c)\<close> for a single character \<open>c\<close>; \<open>None\<close> stands for \<open>-1\<close>.\<close>

fun indexOf :: "string \<Rightarrow> char \<Rightarrow> nat option" where
  "indexOf [] c = None"
| "indexOf (x # xs) c = (if x = c then Some 0 else map_option Suc (indexOf xs c))"

text \<open>
  The white space that \<open>BigInt(string)\<close> and \<open>parseInt\<close> trim: TAB, LF, VT, FF, CR, SP and
  NBSP (the white space and line terminators among the first 256 code units).
\<close>

definition js_whitespace :: "char \<Rightarrow> bool" where
  "js_whitespace c \<longleftrightarrow> c \<in> set [CHR 0x09, CHR 0x0A, CHR 0x0B, CHR 0x0C, CHR 0x0D, CHR 0x20, CHR 0xA0]"

definition hex_digit :: "char \<Rightarrow> nat option" where
  "hex_digit c =
     (case indexOf ''0123456789abcdef'' c of
        Some d \<Rightarrow> Some d
      | None \<Rightarrow> indexOf ''0123456789ABCDEF'' c)"

fun hex_value :: "int \<Rightarrow> string \<Rightarrow> int option" where
  "hex_value acc [] = Some acc"
| "hex_value acc (c # cs) =
     (case hex_digit c of None \<Rightarrow> None | Some d \<Rightarrow> hex_value (acc * 16 + int d) cs)"

text \<open>
  \<open>BigInt('0x' + hex)\<close>: trailing white space is trimmed (leading white space would follow
  the prefix, where it is no longer leading); what remains must be one or more
  hexadecimal digits of either case, or a \<open>SyntaxError\<close> is thrown.
\<close>

definition BigInt_0x :: "string \<Rightarrow> js_error + int" where
  "BigInt_0x hex =
     (let ds = rev (dropWhile js_whitespace (rev hex)) in
      if ds = [] then Inl SyntaxError
      else case hex_value 0 ds of None \<Rightarrow> Inl SyntaxError | Some n \<Rightarrow> Inr n)"

text \<open>\<open>num.toString(16)\<close> of a non-negative \<open>BigInt\<close>: lower-case digits, \<open>"0"\<close> for zero.\<close>

function toString16_loop :: "int \<Rightarrow> string \<Rightarrow> string" where
  "toString16_loop num chars =
     (if num > 0
      then toString16_loop (num div 16) ((''0123456789abcdef'' ! nat (num mod 16)) # chars)
      else chars)"
  by pat_completeness auto
termination
  by (relation "measure (\<lambda>(num, chars). nat num)") auto

declare toString16_loop.simps [simp del]

definition toString16 :: "int \<Rightarrow> string" where
  "toString16 num = (if num = 0 then ''0'' else toString16_loop num [])"

section \<open>The identifier codec (src/lib/convertion-utils.ts)\<close>

definition BASE62_CHARS :: string where
  "BASE62_CHARS = ''0123456789ABCDEFGHIJKLMNOPQRSTUVWXYZabcdefghijklmnopqrstuvwxyz''"

text \<open>
  The loop of \<open>uuidToBase62\<close>: \<open>chars.unshift(BASE62_CHARS[num % 62]); num = num / 62\<close>
  while \<open>num > 0\<close>.
\<close>

function uuidToBase62_loop :: "int \<Rightarrow> string \<Rightarrow> string" where
  "uuidToBase62_loop num chars =
     (if num > 0
      then uuidToBase62_loop (num div 62) ((BASE62_CHARS ! nat (num mod 62)) # chars)
      else chars)"
  by pat_completeness auto
termination
  by (relation "measure (\<lambda>(num, chars). nat num)") auto

declare uuidToBase62_loop.simps [simp del]

definition uuidToBase62 :: "string \<Rightarrow> js_error + string" where
  "uuidToBase62 uuid =
     (let hex = filter (\<lambda>c. c \<noteq> CHR ''-'') uuid in
      case BigInt_0x hex of
        Inl e \<Rightarrow> Inl e
      | Inr num \<Rightarrow>
          if num = 0 then Inr (padStart 22 (CHR ''0'') ''0'')
          else Inr (padStart 22 (CHR ''0'') (uuidToBase62_loop num [])))"

text \<open>
  The loop of \<open>base62ToUuid\<close>: it throws at the first character that \<open>indexOf\<close> does not
  find, and the message names that character.
\<close>

fun base62_fold :: "int \<Rightarrow> string \<Rightarrow> js_error + int" where
  "base62_fold num [] = Inr num"
| "base62_fold num (c # cs) =
     (case indexOf BASE62_CHARS c of
        None \<Rightarrow> Inl (Error (''Invalid base62 character: '' @ [c]))
      | Some idx \<Rightarrow> base62_fold (num * 62 + int idx) cs)"

text \<open>The five slices of lines 44 to 50, joined by dashes.\<close>

definition dashed :: "string \<Rightarrow> string" where
  "dashed hex =
     join ''-'' [slice 0 8 hex, slice 8 12 hex, slice 12 16 hex, slice 16 20 hex, slice 20 32 hex]"

definition base62ToUuid :: "string \<Rightarrow> js_error + string" where
  "base62ToUuid b62 =
     (case base62_fold 0 b62 of
        Inl e \<Rightarrow> Inl e
      | Inr num \<Rightarrow> Inr (dashed (padStart 32 (CHR ''0'') (toString16 num))))"


section \<open>Positional notation\<close>

text \<open>
  The digits of a non-negative number over an alphabet, most significant first and empty
  for zero, and the value of a string of digits of the alphabet. The loops of the codec
  and of \<open>toString\<close> compute the first, the fold of the decoder the second.
\<close>

function radix_digits :: "string \<Rightarrow> int \<Rightarrow> string" where
  "radix_digits A n =
     (if n > 0 \<and> 1 < length A
      then radix_digits A (n div int (length A)) @ [A ! nat (n mod int (length A))]
      else [])"
  by pat_completeness auto
termination
  by (relation "measure (\<lambda>(A, n). nat n)") (simp_all add: int_div_less_self)

fun radix_value :: "string \<Rightarrow> int \<Rightarrow> string \<Rightarrow> int option" where
  "radix_value A acc [] = Some acc"
| "radix_value A acc (c # cs) =
     (case indexOf A c of
        None \<Rightarrow> None
      | Some d \<Rightarrow> radix_value A (acc * int (length A) + int d) cs)"

declare radix_digits.simps [simp del]

text \<open>The identifiers and tokens the properties of the codec speak about.\<close>

definition lower_hex :: "char \<Rightarrow> bool" where
  "lower_hex c \<longleftrightarrow> c \<in> set ''0123456789abcdef''"

definition any_hex :: "char \<Rightarrow> bool" where
  "any_hex c \<longleftrightarrow> hex_digit c \<noteq> None"

definition base62_char :: "char \<Rightarrow> bool" where
  "base62_char c \<longleftrightarrow> c \<in> set BASE62_CHARS"

definition valid_uuid :: "string \<Rightarrow> bool" where
  "valid_uuid x \<longleftrightarrow>
     (let h = filter (\<lambda>c. c \<noteq> CHR ''-'') x
      in length h = 32 \<and> list_all any_hex h \<and> x = dashed h)"

definition canonical_uuid :: "string \<Rightarrow> bool" where
  "canonical_uuid x \<longleftrightarrow>
     (let h = filter (\<lambda>c. c \<noteq> CHR ''-'') x
      in length h = 32 \<and> list_all lower_hex h \<and> x = dashed h)"

definition valid_token :: "string \<Rightarrow> bool" where
  "valid_token t \<longleftrightarrow> length t = 22 \<and> list_all base62_char t"


section \<open>More JavaScript primitives used by the route\<close>

text \<open>\<open>s.split(sep)\<close> for a one-character separator; the result is never empty.\<close>

fun split :: "char \<Rightarrow> string \<Rightarrow> string list" where
  "split sep [] = [] # []"
| "split sep (c # cs) =
     (if c = sep then [] # split sep cs
      else (case split sep cs of [] \<Rightarrow> [c] # [] | x # xs \<Rightarrow> (c # x) # xs))"

text \<open>\<open>xs.pop()\<close> as a value: the last element, \<open>None\<close> (undefined) for an empty array.\<close>

definition pop :: "'a list \<Rightarrow> 'a option" where
  "pop xs = (case rev xs of [] \<Rightarrow> None | x # _ \<Rightarrow> Some x)"

text \<open>
  A \<open>Number\<close> that holds an integer: \<open>NaN\<close>, a finite double whose value is the given
  integer (negative zero is not told from zero), or an infinity.
\<close>

datatype number = NaN | Finite int | Infinity | NegInfinity

text \<open>The comparison \<open>v > 0\<close> and the truthiness of a number.\<close>

fun gt0 :: "number \<Rightarrow> bool" where
  "gt0 NaN = False"
| "gt0 (Finite n) = (n > 0)"
| "gt0 Infinity = True"
| "gt0 NegInfinity = False"

fun number_truthy :: "number \<Rightarrow> bool" where
  "number_truthy NaN = False"
| "number_truthy (Finite n) = (n \<noteq> 0)"
| "number_truthy Infinity = True"
| "number_truthy NegInfinity = True"

text \<open>\<open>Math.min(a, b)\<close>.\<close>

fun Math_min :: "number \<Rightarrow> number \<Rightarrow> number" where
  "Math_min NaN b = NaN"
| "Math_min a NaN = NaN"
| "Math_min NegInfinity b = NegInfinity"
| "Math_min a NegInfinity = NegInfinity"
| "Math_min Infinity b = b"
| "Math_min a Infinity = a"
| "Math_min (Finite x) (Finite y) = Finite (min x y)"

text \<open>
  The Number value of a mathematical integer: the nearest double, ties to the even
  significand. A double has 53 significant bits, so a magnitude of more bits loses its
  low bits, rounded; what reaches \<open>2^1024\<close> after rounding is an infinity.
\<close>

function bit_length :: "int \<Rightarrow> nat" where
  "bit_length m = (if 0 < m then Suc (bit_length (m div 2)) else 0)"
  by pat_completeness auto
termination
  by (relation "measure nat") auto

declare bit_length.simps [simp del]

definition round_magnitude :: "int \<Rightarrow> int" where
  "round_magnitude m =
     (let e = bit_length m - 53 in
      if e = 0 then m
      else
        (let q = m div 2 ^ e; r = m mod 2 ^ e; half = 2 ^ (e - 1)
         in (if half < r \<or> (r = half \<and> odd q) then q + 1 else q) * 2 ^ e))"

definition Number_value :: "int \<Rightarrow> number" where
  "Number_value x =
     (let v = round_magnitude \<bar>x\<bar> in
      if 2 ^ 1024 \<le> v then (if x < 0 then NegInfinity else Infinity)
      else Finite (if x < 0 then - v else v))"

text \<open>
  \<open>parseInt(string)\<close> with no radix, following ECMA-262: leading white space is trimmed,
  one sign is read, a \<open>0x\<close> or \<open>0X\<close> prefix selects radix 16, and the longest prefix of
  digits of the radix is read as a mathematical integer; with no digit the result is
  \<open>NaN\<close>, and otherwise the Number value of the signed integer.
\<close>

definition radix_digit :: "int \<Rightarrow> char \<Rightarrow> nat option" where
  "radix_digit R c = (if R = 16 then hex_digit c else indexOf ''0123456789'' c)"

fun parse_digits :: "int \<Rightarrow> int \<Rightarrow> string \<Rightarrow> int" where
  "parse_digits R acc [] = acc"
| "parse_digits R acc (c # cs) =
     (case radix_digit R c of None \<Rightarrow> acc | Some d \<Rightarrow> parse_digits R (acc * R + int d) cs)"

definition parseInt :: "string \<Rightarrow> number" where
  "parseInt string =
     (let S = dropWhile js_whitespace string;
          sign = (case S of [] \<Rightarrow> 1 | c # _ \<Rightarrow> if c = CHR ''-'' then - 1 else (1::int));
          S1 = (case S of [] \<Rightarrow> S | c # r \<Rightarrow> if c = CHR ''+'' \<or> c = CHR ''-'' then r else S);
          hex = (take 2 S1 = ''0x'' \<or> take 2 S1 = ''0X'');
          R = (if hex then 16 else 10);
          S2 = (if hex then drop 2 S1 else S1);
          Z = takeWhile (\<lambda>c. radix_digit R c \<noteq> None) S2
      in if Z = [] then NaN else Number_value (sign * parse_digits R 0 Z))"

text \<open>\<open>n.toString()\<close> of a non-negative integer \<open>Number\<close>.\<close>

definition Number_toString :: "nat \<Rightarrow> string" where
  "Number_toString n = (if n = 0 then ''0'' else radix_digits ''0123456789'' (int n))"

text \<open>
  \<open>URLSearchParams\<close> is the list of decoded name and value pairs in query order;
  \<open>get\<close> returns the value of the first pair with the name, \<open>None\<close> for \<open>null\<close>.
\<close>

type_synonym URLSearchParams = "(string \<times> string) list"

definition get :: "URLSearchParams \<Rightarrow> string \<Rightarrow> string option" where
  "get searchParams key = map_of searchParams key"

text \<open>\<open>v || ''\<close> for \<open>v\<close> a string or \<open>null\<close>.\<close>

definition or_empty :: "string option \<Rightarrow> string" where
  "or_empty v = (case v of None \<Rightarrow> [] | Some s \<Rightarrow> s)"

text \<open>Truthiness of a string that may be \<open>null\<close> or \<open>undefined\<close>: the empty string is falsy.\<close>

definition truthy :: "string option \<Rightarrow> bool" where
  "truthy v = (case v of None \<Rightarrow> False | Some s \<Rightarrow> s \<noteq> [])"

section \<open>Extension of a MIME type (src/lib/convertion-utils.ts, lines 56 to 82)\<close>

text \<open>
  The table is an object literal, so \<open>map[mimeType]\<close> finds an own property first and
  then looks the key up along the prototype chain, where the properties of
  \<open>Object.prototype\<close> live. Those are functions, and \<open>__proto__\<close> yields the prototype
  object itself; none of them is a string and all are truthy.
\<close>

datatype js_value = JUndefined | JString string | JObject string

definition mime_table :: "(string \<times> string) list" where
  "mime_table =
     [(''image/jpeg'', ''jpg''), (''image/jpg'', ''jpg''), (''image/png'', ''png''),
      (''image/gif'', ''gif''), (''image/webp'', ''webp''), (''image/avif'', ''avif''),
      (''image/bmp'', ''bmp''), (''image/tiff'', ''tiff''), (''image/svg+xml'', ''svg''),
      (''video/mp4'', ''mp4''), (''video/mpeg'', ''mpeg''), (''video/webm'', ''webm''),
      (''video/ogg'', ''ogv''), (''video/quicktime'', ''mov''), (''audio/mpeg'', ''mp3''),
      (''audio/mp3'', ''mp3''), (''audio/wav'', ''wav''), (''audio/ogg'', ''ogg''),
      (''audio/webm'', ''weba''), (''audio/aac'', ''aac''), (''application/pdf'', ''pdf'')]"

definition Object_prototype_keys :: "string list" where
  "Object_prototype_keys =
     [''constructor'', ''__defineGetter__'', ''__defineSetter__'', ''hasOwnProperty'',
      ''__lookupGetter__'', ''__lookupSetter__'', ''isPrototypeOf'', ''propertyIsEnumerable'',
      ''toString'', ''valueOf'', ''__proto__'', ''toLocaleString'']"

text \<open>\<open>map[key]\<close>.\<close>

definition map_lookup :: "string \<Rightarrow> js_value" where
  "map_lookup key =
     (case map_of mime_table key of
        Some ext \<Rightarrow> JString ext
      | None \<Rightarrow> if key \<in> set Object_prototype_keys then JObject key else JUndefined)"

text \<open>\<open>a || b\<close>: the left operand when it is truthy, the right one otherwise.\<close>

fun js_truthy :: "js_value \<Rightarrow> bool" where
  "js_truthy JUndefined = False"
| "js_truthy (JString s) = (s \<noteq> [])"
| "js_truthy (JObject k) = True"

definition js_or :: "js_value \<Rightarrow> js_value \<Rightarrow> js_value" where
  "js_or a b = (if js_truthy a then a else b)"

definition mimeToExtension :: "string \<Rightarrow> js_value" where
  "mimeToExtension mimeType =
     js_or
       (js_or (map_lookup mimeType)
          (case pop (split (CHR ''/'') mimeType) of None \<Rightarrow> JUndefined | Some s \<Rightarrow> JString s))
       (JString ''bin'')"


section \<open>The asset proxy route (src/app/a/[hash]/[...name]/route.ts)\<close>

subsection \<open>Transform parameters (lines 26 to 39)\<close>

text \<open>The returned object; \<open>None\<close> in a dimension is \<open>undefined\<close>.\<close>

record transform =
  width :: "number option"
  height :: "number option"
  quality :: number

text \<open>The truthiness of a number that may be \<open>undefined\<close>.\<close>

definition num_truthy :: "number option \<Rightarrow> bool" where
  "num_truthy v = (case v of None \<Rightarrow> False | Some n \<Rightarrow> number_truthy n)"

definition parseTransformParams :: "URLSearchParams \<Rightarrow> transform option" where
  "parseTransformParams searchParams =
     (let w = parseInt (or_empty (get searchParams ''width''));
          h = parseInt (or_empty (get searchParams ''height''));
          q = parseInt (or_empty (get searchParams ''quality''));
          hasParams = (gt0 w \<or> gt0 h \<or> gt0 q)
      in if \<not> hasParams then None
         else Some \<lparr> width = (if gt0 w then Some w else None),
                     height = (if gt0 h then Some h else None),
                     quality = (if gt0 q then Math_min q (Finite 100) else Finite 80) \<rparr>)"

subsection \<open>The world outside the route\<close>

text \<open>
  The asset row read from the catalog. The route reads two columns; the others travel in
  the extension of the record.
\<close>

record asset =
  storage_path :: "string option"
  mime_type :: "string option"

text \<open>
  A parsed \<open>URL\<close>. The field \<open>fragment\<close> is the property \<open>hash\<close> of the URL object, and
  \<open>href\<close> is its serialisation. A search string read from one URL and assigned to another
  is stored as it is, together with the parameters it stands for.
\<close>

record url =
  origin :: string
  pathname :: string
  search :: string
  searchParams :: URLSearchParams
  fragment :: string

definition href :: "url \<Rightarrow> string" where
  "href u = origin u @ pathname u @ search u @ fragment u"

text \<open>The request: the route parameters and the parsed request URL.\<close>

record request =
  hash :: string
  name :: "string list"
  url :: url

type_synonym bytes = "8 word list"

text \<open>
  The upstream response of \<open>fetch\<close>: its \<open>ok\<close> flag, its body stream (the bytes it
  delivers) and what \<open>arrayBuffer()\<close> resolves to.
\<close>

record fetched =
  ok :: bool
  body :: bytes
  arrayBuffer :: "js_error + bytes"

text \<open>The calls made on the \<open>sharp\<close> pipeline, in order.\<close>

datatype sharp_op =
  Resize "number option" "number option" string bool
| Webp number

text \<open>
  The collaborators that are not part of the route, each a parameter. A call that throws
  or rejects returns \<open>Inl\<close>. \<open>getSupabaseAdmin\<close> yields \<open>None\<close> for \<open>null\<close> and otherwise
  the client, represented by its \<open>storage.from(bucket).getPublicUrl(path)\<close>.
  \<open>newURL\<close> is the constructor \<open>new URL(path, base)\<close> and \<open>sharp\<close> runs a pipeline on a
  buffer up to \<open>toBuffer()\<close>.
\<close>

record 'a env =
  getAssetForProxy :: "string \<Rightarrow> js_error + 'a asset_scheme option"
  getAssetProxyUrl :: "'a asset_scheme \<Rightarrow> js_error + string option"
  isAssetOfType :: "string option \<Rightarrow> string \<Rightarrow> js_error + bool"
  ASSET_CATEGORIES_IMAGES :: string
  getSupabaseAdmin :: "js_error + (string \<Rightarrow> string option \<Rightarrow> js_error + string) option"
  STORAGE_BUCKET :: string
  fetch :: "string \<Rightarrow> js_error + fetched"
  newURL :: "string \<Rightarrow> string \<Rightarrow> js_error + url"
  sharp :: "bytes \<Rightarrow> sharp_op list \<Rightarrow> js_error + bytes"

text \<open>
  A \<open>Response\<close>: body, status and the headers the route sets. \<open>Stream\<close> is a body handed
  over as the upstream stream, \<open>Buffer\<close> one built from a buffer.
\<close>

datatype response_body = NoBody | Text string | Buffer bytes | Stream bytes

datatype response =
  Response (resp_body: response_body) (resp_status: nat) (resp_headers: "(string \<times> string) list")

definition Response_redirect :: "string \<Rightarrow> nat \<Rightarrow> response" where
  "Response_redirect location code = Response NoBody code [(''Location'', location)]"

subsection \<open>The handler (lines 41 to 123)\<close>

text \<open>
  Lines 46 to 58: decode the token and look the asset up. The result is the early
  response, or the asset to go on with.
\<close>

definition lookup :: "'a env \<Rightarrow> request \<Rightarrow> js_error + (response + 'a asset_scheme)" where
  "lookup env req =
     (case base62ToUuid (hash req) of
        Inl e \<Rightarrow> Inr (Inl (Response (Text ''Not found'') 404 []))
      | Inr assetId \<Rightarrow>
          (case getAssetForProxy env assetId of
             Inl e \<Rightarrow> Inl e
           | Inr None \<Rightarrow> Inr (Inl (Response (Text ''Not found'') 404 []))
           | Inr (Some asset) \<Rightarrow>
               if \<not> truthy (storage_path asset)
               then Inr (Inl (Response (Text ''Not found'') 404 []))
               else Inr (Inr asset)))"

text \<open>Lines 60 to 70: the redirect to the canonical path, or \<open>None\<close> to go on.\<close>

definition checkCanonical :: "'a env \<Rightarrow> request \<Rightarrow> 'a asset_scheme \<Rightarrow> js_error + response option" where
  "checkCanonical env req asset =
     (case getAssetProxyUrl env asset of
        Inl e \<Rightarrow> Inl e
      | Inr canonicalPath \<Rightarrow>
          if truthy canonicalPath
          then
            (let requestedName = join ''/'' (name req);
                 canonicalName = join ''/'' (drop 3 (split (CHR ''/'') (or_empty canonicalPath)))
             in if requestedName \<noteq> canonicalName
                then (case newURL env (or_empty canonicalPath) (origin (url req)) of
                        Inl e \<Rightarrow> Inl e
                      | Inr redirectUrl \<Rightarrow>
                          Inr (Some (Response_redirect
                            (href (redirectUrl\<lparr> search := search (url req),
                                                searchParams := searchParams (url req) \<rparr>)) 301)))
                else Inr None)
          else Inr None)"

text \<open>Lines 114 to 119: the upstream body passed through.\<close>

definition passthrough :: "fetched \<Rightarrow> string option \<Rightarrow> response" where
  "passthrough response mime =
     Response (Stream (body response)) 200
       [(''Content-Type'', if truthy mime then or_empty mime else ''application/octet-stream'')]"

text \<open>Lines 91 to 111: the image run through \<open>sharp\<close>.\<close>

definition resize :: "fetched \<Rightarrow> transform \<Rightarrow> 'a env \<Rightarrow> js_error + response" where
  "resize response t env =
     (case arrayBuffer response of
        Inl e \<Rightarrow> Inl e
      | Inr buffer \<Rightarrow>
          (let pipeline =
                 (if num_truthy (width t) \<or> num_truthy (height t)
                  then [Resize (width t) (height t) ''cover'' True] else [])
                 @ [Webp (quality t)]
           in case sharp env buffer pipeline of
                Inl e \<Rightarrow> Inl e
              | Inr resized \<Rightarrow>
                  Inr (Response (Buffer resized) 200
                    [(''Content-Type'', ''image/webp''),
                     (''Content-Length'', Number_toString (length resized))])))"

text \<open>Lines 72 to 119: fetch the object and answer with it, resized or as it is.\<close>

definition serve :: "'a env \<Rightarrow> request \<Rightarrow> 'a asset_scheme \<Rightarrow> js_error + response" where
  "serve env req asset =
     (case getSupabaseAdmin env of
        Inl e \<Rightarrow> Inl e
      | Inr None \<Rightarrow> Inr (Response (Text ''Service unavailable'') 503 [])
      | Inr (Some supabase) \<Rightarrow>
          (case supabase (STORAGE_BUCKET env) (storage_path asset) of
             Inl e \<Rightarrow> Inl e
           | Inr publicUrl \<Rightarrow>
               (case fetch env publicUrl of
                  Inl e \<Rightarrow> Inl e
                | Inr response \<Rightarrow>
                    if \<not> ok response then Inr (Response (Text ''Not found'') 404 [])
                    else
                      (case parseTransformParams (searchParams (url req)) of
                         None \<Rightarrow> Inr (passthrough response (mime_type asset))
                       | Some t \<Rightarrow>
                           (case isAssetOfType env (mime_type asset) (ASSET_CATEGORIES_IMAGES env) of
                              Inl e \<Rightarrow> Inl e
                            | Inr canResize \<Rightarrow>
                                if canResize then resize response t env
                                else Inr (passthrough response (mime_type asset)))))))"

text \<open>The body of the outer \<open>try\<close>.\<close>

definition GET_try :: "'a env \<Rightarrow> request \<Rightarrow> js_error + response" where
  "GET_try env req =
     (case lookup env req of
        Inl e \<Rightarrow> Inl e
      | Inr (Inl early) \<Rightarrow> Inr early
      | Inr (Inr asset) \<Rightarrow>
          (case checkCanonical env req asset of
             Inl e \<Rightarrow> Inl e
           | Inr (Some redirect) \<Rightarrow> Inr redirect
           | Inr None \<Rightarrow> serve env req asset))"

text \<open>The outer \<open>catch\<close>: whatever was thrown, the answer is the same.\<close>

definition respond :: "js_error + response \<Rightarrow> response" where
  "respond r =
     (case r of Inl e \<Rightarrow> Response (Text ''Internal server error'') 500 [] | Inr res \<Rightarrow> res)"

definition GET :: "'a env \<Rightarrow> request \<Rightarrow> response" where
  "GET env req = respond (GET_try env req)"


subsection \<open>Vocabulary for stating the properties of the route\<close>

text \<open>The query with every pair of the given name removed: the parameter is absent.\<close>

definition without :: "string \<Rightarrow> URLSearchParams \<Rightarrow> URLSearchParams" where
  "without key params = filter (\<lambda>(k, v). k \<noteq> key) params"

definition decimal_digit :: "char \<Rightarrow> bool" where
  "decimal_digit c \<longleftrightarrow> c \<in> set ''0123456789''"

text \<open>
  The request gets past decoding, lookup and the canonical check with the given asset; and
  it moreover finds the storage client and fetches the given successful upstream response.
\<close>

definition passes_canonical :: "'a env \<Rightarrow> request \<Rightarrow> 'a asset_scheme \<Rightarrow> bool" where
  "passes_canonical env req asset \<longleftrightarrow>
     lookup env req = Inr (Inr asset) \<and> checkCanonical env req asset = Inr None"

definition upstream_ok :: "'a env \<Rightarrow> request \<Rightarrow> 'a asset_scheme \<Rightarrow> fetched \<Rightarrow> bool" where
  "upstream_ok env req asset up \<longleftrightarrow>
     passes_canonical env req asset \<and>
     (case getSupabaseAdmin env of
        Inr (Some supabase) \<Rightarrow>
          (case supabase (STORAGE_BUCKET env) (storage_path asset) of
             Inr publicUrl \<Rightarrow> fetch env publicUrl = Inr up \<and> ok up
           | Inl e \<Rightarrow> False)
      | _ \<Rightarrow> False)"

text \<open>
  The request gets as far as the storage client, said of the collaborators alone: the
  token decodes, the catalog returns the asset, the asset has a storage path, and the
  canonical path is missing or names what the request names.
\<close>

definition reaches_storage :: "'a env \<Rightarrow> request \<Rightarrow> 'a asset_scheme \<Rightarrow> bool" where
  "reaches_storage env req asset \<longleftrightarrow>
     (case base62ToUuid (hash req) of
        Inl e \<Rightarrow> False
      | Inr assetId \<Rightarrow>
          getAssetForProxy env assetId = Inr (Some asset) \<and> truthy (storage_path asset) \<and>
          (case getAssetProxyUrl env asset of
             Inl e \<Rightarrow> False
           | Inr canonicalPath \<Rightarrow>
               \<not> truthy canonicalPath \<or>
               join ''/'' (name req)
                 = join ''/'' (drop 3 (split (CHR ''/'') (or_empty canonicalPath)))))"

text \<open>The three error responses.\<close>

abbreviation NotFound :: response where
  "NotFound \<equiv> Response (Text ''Not found'') 404 []"

abbreviation ServiceUnavailable :: response where
  "ServiceUnavailable \<equiv> Response (Text ''Service unavailable'') 503 []"

abbreviation InternalServerError :: response where
  "InternalServerError \<equiv> Response (Text ''Internal server error'') 500 []"

text \<open>
  A catalog row, a world and a request to try the handler on. The \<open>sharp\<close> of this world
  reverses the buffer and appends one byte for each step of the pipeline, the quality for
  \<open>webp\<close>, so that its output shows the pipeline it was given.
\<close>

fun step_byte :: "sharp_op \<Rightarrow> 8 word" where
  "step_byte (Resize w h fit withoutEnlargement) = 0"
| "step_byte (Webp q) = (case q of Finite k \<Rightarrow> word_of_int k | _ \<Rightarrow> 0)"

definition example_asset :: asset where
  "example_asset = \<lparr> storage_path = Some ''uploads/photo.png'', mime_type = Some ''image/png'' \<rparr>"

definition example_env :: "unit env" where
  "example_env =
     \<lparr> getAssetForProxy = (\<lambda>assetId. Inr (Some example_asset)),
       getAssetProxyUrl = (\<lambda>a. Inr (Some ''/a/4M9EJZZtPhcA3iTjadiWkD/photo.png'')),
       isAssetOfType = (\<lambda>mime category. Inr (take 6 (or_empty mime) = ''image/'')),
       ASSET_CATEGORIES_IMAGES = ''images'',
       getSupabaseAdmin =
         Inr (Some (\<lambda>bucket path. Inr (''https://store.example/'' @ bucket @ ''/'' @ or_empty path))),
       STORAGE_BUCKET = ''assets'',
       fetch = (\<lambda>publicUrl. Inr \<lparr> ok = True, body = [1, 2, 3], arrayBuffer = Inr [1, 2, 3] \<rparr>),
       newURL = (\<lambda>path base. Inr \<lparr> origin = base, pathname = path, search = [],
                                    searchParams = [], fragment = [] \<rparr>),
       sharp = (\<lambda>buffer pipeline. Inr (rev buffer @ map step_byte pipeline)) \<rparr>"

definition example_request :: request where
  "example_request =
     \<lparr> hash = ''4M9EJZZtPhcA3iTjadiWkD'', name = [''photo.png''],
       url = \<lparr> origin = ''https://site.example'',
               pathname = ''/a/4M9EJZZtPhcA3iTjadiWkD/photo.png'',
               search = ''?quality=90'', searchParams = [(''quality'', ''90'')],
               fragment = [] \<rparr> \<rparr>"


section \<open>Lemmas on positional notation\<close>

lemma div_mod_digit:
  "0 \<le> d \<Longrightarrow> d < b \<Longrightarrow> (m * b + d) div b = m \<and> (m * b + d) mod b = (d::int)"
proof -
  assume h: "0 \<le> d" "d < b"
  have b: "b \<noteq> 0" using h by auto
  have "(m * b + d) div b = m + d div b" using b by (rule div_mult_self3)
  moreover have "d div b = 0" using h by (simp add: div_pos_pos_trivial)
  moreover have "(m * b + d) mod b = d mod b" by simp
  moreover have "d mod b = d" using h by (simp add: mod_pos_pos_trivial)
  ultimately show ?thesis by simp
qed

lemma div_less_power:
  "(n::int) < b * b ^ k \<Longrightarrow> 0 < b \<Longrightarrow> n div b < b ^ k"
proof -
  assume h: "n < b * b ^ k" "0 < b"
  have "b * (n div b) + n mod b = n" by simp
  moreover have "0 \<le> n mod b" using h by simp
  ultimately have "b * (n div b) < b * b ^ k" using h by linarith
  then show ?thesis using h by simp
qed

lemma digit_sum_zero:
  "0 \<le> m \<Longrightarrow> \<not> 0 < m * int b + int d \<Longrightarrow> 1 < b \<Longrightarrow> m = 0 \<and> d = 0"
proof -
  assume h: "0 \<le> m" "\<not> 0 < m * int b + int d" "1 < b"
  have "0 \<le> m * int b" using h by simp
  then have "m * int b = 0" "int d = 0" using h by linarith+
  then show ?thesis using h by auto
qed

lemma indexOf_None: "indexOf A c = None \<longleftrightarrow> c \<notin> set A"
  by (induction A) auto

lemma indexOf_Some: "indexOf A c = Some i \<Longrightarrow> i < length A \<and> A ! i = c"
  by (induction A arbitrary: i) (auto split: if_splits)

lemma indexOf_nth: "distinct A \<Longrightarrow> i < length A \<Longrightarrow> indexOf A (A ! i) = Some i"
proof (induction A arbitrary: i)
  case Nil
  then show ?case by simp
next
  case (Cons a A)
  then show ?case by (cases i) auto
qed

lemma radix_value_append:
  "radix_value A acc (xs @ ys) =
     (case radix_value A acc xs of None \<Rightarrow> None | Some n \<Rightarrow> radix_value A n ys)"
  by (induction xs arbitrary: acc) (auto split: option.splits)

lemma radix_value_digits:
  "distinct A \<Longrightarrow> 1 < length A \<Longrightarrow> 0 \<le> n \<Longrightarrow>
     radix_value A 0 (radix_digits A n) = Some n"
proof (induction A n rule: radix_digits.induct)
  case (1 A n)
  show ?case
  proof (cases "n > 0")
    case True
    let ?b = "int (length A)"
    have b: "0 < ?b" using "1.prems"(2) by (cases A) simp_all
    have m: "0 \<le> n mod ?b" "n mod ?b < ?b" using b by (rule pos_mod_sign, rule pos_mod_bound)
    then have lt: "nat (n mod ?b) < length A" by linarith
    have "0 \<le> n div ?b" using True b by (simp add: pos_imp_zdiv_nonneg_iff)
    then have ih: "radix_value A 0 (radix_digits A (n div ?b)) = Some (n div ?b)"
      using "1.IH" True "1.prems"(1,2) by blast
    have "radix_digits A n = radix_digits A (n div ?b) @ [A ! nat (n mod ?b)]"
      using True "1.prems"(2) by (subst radix_digits.simps) simp
    then show ?thesis
      using ih lt m indexOf_nth[OF "1.prems"(1) lt]
      by (simp add: radix_value_append)
  next
    case False
    with "1.prems" have "n = 0" by simp
    then show ?thesis by (subst radix_digits.simps) simp
  qed
qed

lemma radix_value_zeros:
  "indexOf A z = Some 0 \<Longrightarrow> radix_value A 0 (replicate k z @ s) = radix_value A 0 s"
  by (induction k) auto

lemma radix_value_nonneg:
  "radix_value A acc s = Some n \<Longrightarrow> 0 \<le> acc \<Longrightarrow> 0 \<le> n"
  by (induction s arbitrary: acc) (auto split: option.splits)

lemma radix_value_bound:
  "radix_value A acc s = Some n \<Longrightarrow> 0 \<le> acc \<Longrightarrow> n < (acc + 1) * int (length A) ^ length s"
proof (induction s arbitrary: acc)
  case Nil
  then show ?case by simp
next
  case (Cons c s)
  then obtain d where d: "indexOf A c = Some d"
    and r: "radix_value A (acc * int (length A) + int d) s = Some n"
    by (auto split: option.splits)
  have dl: "int d < int (length A)" using indexOf_Some[OF d] by simp
  have "n < (acc * int (length A) + int d + 1) * int (length A) ^ length s"
    using Cons.IH[OF r] Cons.prems(2) by simp
  also have "\<dots> \<le> ((acc + 1) * int (length A)) * int (length A) ^ length s"
    using dl by (intro mult_right_mono) (auto simp: algebra_simps)
  finally show ?case by (simp add: mult.assoc)
qed

lemma radix_digits_length:
  "0 \<le> n \<Longrightarrow> n < int (length A) ^ k \<Longrightarrow> length (radix_digits A n) \<le> k"
proof (induction k arbitrary: n)
  case 0
  then have "n = 0" by simp
  then show ?case by (subst radix_digits.simps) simp
next
  case (Suc k)
  show ?case
  proof (cases "n > 0 \<and> 1 < length A")
    case True
    let ?b = "int (length A)"
    have b: "0 < ?b" using True by (cases A) simp_all
    have "n div ?b < ?b ^ k"
      using Suc.prems b by (intro div_less_power) auto
    moreover have "0 \<le> n div ?b" using Suc.prems b by (simp add: pos_imp_zdiv_nonneg_iff)
    ultimately have "length (radix_digits A (n div ?b)) \<le> k" by (rule Suc.IH[rotated])
    then show ?thesis using True by (subst radix_digits.simps) simp
  next
    case False
    then show ?thesis by (subst radix_digits.simps) auto
  qed
qed

lemma radix_digits_set: "set (radix_digits A n) \<subseteq> set A"
proof (induction A n rule: radix_digits.induct)
  case (1 A n)
  show ?case
  proof (cases "n > 0 \<and> 1 < length A")
    case True
    let ?b = "int (length A)"
    have b: "0 < ?b" using True by (cases A) simp_all
    have "0 \<le> n mod ?b" "n mod ?b < ?b" using b by (rule pos_mod_sign, rule pos_mod_bound)
    then have "nat (n mod ?b) < length A" by linarith
    then have "A ! nat (n mod ?b) \<in> set A" by simp
    then show ?thesis using 1 True by (subst radix_digits.simps) simp
  next
    case False
    then show ?thesis by (subst radix_digits.simps) auto
  qed
qed

lemma radix_digits_value:
  assumes "1 < length A" "indexOf A z = Some 0"
  shows "radix_value A 0 s = Some n \<Longrightarrow>
    replicate (length s - length (radix_digits A n)) z @ radix_digits A n = s"
proof (induction s arbitrary: n rule: rev_induct)
  case Nil
  then show ?case by (subst radix_digits.simps, subst (2) radix_digits.simps) simp
next
  case (snoc c s)
  let ?b = "int (length A)"
  from snoc.prems obtain m d where m: "radix_value A 0 s = Some m"
    and d: "indexOf A c = Some d" and n: "n = m * ?b + int d"
    by (auto simp: radix_value_append split: option.splits)
  have dl: "d < length A" and dc: "A ! d = c" using indexOf_Some[OF d] by auto
  have m0: "0 \<le> m" using radix_value_nonneg[OF m] by simp
  have ih: "replicate (length s - length (radix_digits A m)) z @ radix_digits A m = s"
    using snoc.IH[OF m] .
  have nd: "n div ?b = m" "n mod ?b = int d"
    using div_mod_digit[of "int d" ?b m] n dl by auto
  show ?case
  proof (cases "n > 0")
    case True
    have "radix_digits A n = radix_digits A m @ [c]"
      using True assms nd dc by (subst radix_digits.simps) simp
    then show ?thesis using ih by simp
  next
    case False
    with n m0 have "m = 0" "d = 0"
      using digit_sum_zero[of m "length A" d] assms(1) by auto
    with n have "n = 0" by simp
    note z = \<open>m = 0\<close> \<open>d = 0\<close> \<open>n = 0\<close>
    from z
    have "radix_digits A 0 = []" by (subst radix_digits.simps) simp
    moreover have "z = c" using indexOf_Some[OF assms(2)] dc \<open>d = 0\<close> by simp
    ultimately have "replicate (length s) c = s" "radix_digits A n = []"
      using ih z by simp_all
    moreover have "replicate (length s) c @ [c] = c # replicate (length s) c"
      by (rule replicate_append_same)
    ultimately show ?thesis using \<open>z = c\<close> by simp
  qed
qed

subsection \<open>The loops of the source in positional notation\<close>

lemma length_BASE62: "length BASE62_CHARS = 62"
  by (simp add: BASE62_CHARS_def)

lemma distinct_BASE62: "distinct BASE62_CHARS"
  by (simp add: BASE62_CHARS_def)

lemma indexOf_BASE62_zero: "indexOf BASE62_CHARS (CHR ''0'') = Some 0"
  by (simp add: BASE62_CHARS_def)

lemma uuidToBase62_loop_digits:
  "uuidToBase62_loop num chars = radix_digits BASE62_CHARS num @ chars"
proof (induction num chars rule: uuidToBase62_loop.induct)
  case (1 num chars)
  show ?case
  proof (cases "num > 0")
    case True
    then show ?thesis
      using "1.IH"
      by (subst uuidToBase62_loop.simps, subst radix_digits.simps) (simp add: length_BASE62)
  next
    case False
    then show ?thesis
      by (subst uuidToBase62_loop.simps, subst radix_digits.simps) simp
  qed
qed

lemma toString16_loop_digits:
  "toString16_loop num chars = radix_digits ''0123456789abcdef'' num @ chars"
proof (induction num chars rule: toString16_loop.induct)
  case (1 num chars)
  show ?case
  proof (cases "num > 0")
    case True
    then show ?thesis
      using "1.IH"
      by (subst toString16_loop.simps, subst radix_digits.simps) simp
  next
    case False
    then show ?thesis
      by (subst toString16_loop.simps, subst radix_digits.simps) simp
  qed
qed

lemma base62_fold_value:
  "base62_fold acc s = Inr n \<longleftrightarrow> radix_value BASE62_CHARS acc s = Some n"
  by (induction s arbitrary: acc) (auto simp: length_BASE62 split: option.splits)

lemma hex_digit_lower:
  "lower_hex c \<Longrightarrow> hex_digit c = indexOf ''0123456789abcdef'' c"
  by (auto simp: hex_digit_def lower_hex_def split: option.splits)

lemma hex_value_lower:
  "list_all lower_hex s \<Longrightarrow> hex_value acc s = radix_value ''0123456789abcdef'' acc s"
  by (induction s arbitrary: acc) (simp_all add: hex_digit_lower)

lemma radix_value_total:
  "list_all (\<lambda>c. c \<in> set A) s \<Longrightarrow> \<exists>n. radix_value A acc s = Some n"
proof (induction s arbitrary: acc)
  case Nil
  then show ?case by simp
next
  case (Cons c s)
  then obtain d where "indexOf A c = Some d"
    using indexOf_None[of A c] by (cases "indexOf A c") auto
  then show ?case using Cons by simp
qed

lemma hex_digit_less: "hex_digit c = Some d \<Longrightarrow> d < 16"
  unfolding hex_digit_def
  by (auto simp del: indexOf.simps split: option.splits dest: indexOf_Some)

lemma hex_value_bound:
  "hex_value acc s = Some n \<Longrightarrow> 0 \<le> acc \<Longrightarrow> 0 \<le> n \<and> n < (acc + 1) * 16 ^ length s"
proof (induction s arbitrary: acc)
  case Nil
  then show ?case by simp
next
  case (Cons c s)
  then obtain d where d: "hex_digit c = Some d"
    and r: "hex_value (acc * 16 + int d) s = Some n"
    by (auto split: option.splits)
  have dl: "int d < 16" using hex_digit_less[OF d] by simp
  have ih: "0 \<le> n" "n < (acc * 16 + int d + 1) * 16 ^ length s"
    using Cons.IH[OF r] Cons.prems(2) by simp_all
  note ih(2)
  also have "(acc * 16 + int d + 1) * 16 ^ length s \<le> ((acc + 1) * 16) * (16::int) ^ length s"
    using dl by (intro mult_right_mono) (auto simp: algebra_simps)
  finally show ?case using ih(1) by (simp add: algebra_simps)
qed

lemma hex_value_total:
  "list_all any_hex s \<Longrightarrow> \<exists>n. hex_value acc s = Some n"
  by (induction s arbitrary: acc) (auto simp: any_hex_def)

lemma any_hex_not_whitespace: "any_hex c \<Longrightarrow> \<not> js_whitespace c"
proof
  assume h: "any_hex c" and w: "js_whitespace c"
  from h have "c \<in> set ''0123456789abcdef'' \<or> c \<in> set ''0123456789ABCDEF''"
    using indexOf_None[of "''0123456789abcdef''" c] indexOf_None[of "''0123456789ABCDEF''" c]
    by (auto simp: any_hex_def hex_digit_def split: option.splits)
  with w show False by (auto simp: js_whitespace_def)
qed

lemma lower_hex_any_hex: "lower_hex c \<Longrightarrow> any_hex c"
  using indexOf_None[of "''0123456789abcdef''" c]
  by (auto simp: any_hex_def hex_digit_def lower_hex_def split: option.splits)

lemma trim_hex:
  "list_all any_hex h \<Longrightarrow> rev (dropWhile js_whitespace (rev h)) = h"
proof (cases h rule: rev_cases)
  case Nil
  then show ?thesis by simp
next
  case (snoc ys y)
  assume "list_all any_hex h"
  with snoc have "any_hex y" by simp
  then show ?thesis using snoc any_hex_not_whitespace by simp
qed

lemma BigInt_0x_hex:
  "list_all any_hex h \<Longrightarrow> h \<noteq> [] \<Longrightarrow> hex_value 0 h = Some n \<Longrightarrow> BigInt_0x h = Inr n"
  by (simp add: BigInt_0x_def trim_hex)


subsection \<open>Dashes and slices\<close>

lemma slices_concat:
  "slice 0 8 h @ slice 8 12 h @ slice 12 16 h @ slice 16 20 h @ slice 20 32 h = take 32 h"
proof -
  have "take 32 h = take (8 + (4 + (4 + (4 + 12)))) h" by simp
  also have "\<dots> = take 8 h @ take 4 (drop 8 h) @ take 4 (drop 12 h) @ take 4 (drop 16 h)
      @ take 12 (drop 20 h)"
    by (simp only: take_add drop_drop) simp
  finally show ?thesis by (simp add: slice_def)
qed

lemma filter_dashed:
  "filter (\<lambda>c. c \<noteq> CHR ''-'') (dashed h) = filter (\<lambda>c. c \<noteq> CHR ''-'') (take 32 h)"
proof -
  have "filter (\<lambda>c. c \<noteq> CHR ''-'') (dashed h) =
      filter (\<lambda>c. c \<noteq> CHR ''-'')
        (slice 0 8 h @ slice 8 12 h @ slice 12 16 h @ slice 16 20 h @ slice 20 32 h)"
    by (simp add: dashed_def)
  then show ?thesis by (simp only: slices_concat)
qed

lemma dashed_take: "dashed (take 32 h) = dashed h"
  by (simp add: dashed_def slice_def drop_take)

lemma lower_hex_not_dash: "lower_hex c \<Longrightarrow> c \<noteq> CHR ''-''"
  by (auto simp: lower_hex_def)

lemma canonical_dashed:
  assumes "length h = 32" "list_all lower_hex h"
  shows "canonical_uuid (dashed h)" "filter (\<lambda>c. c \<noteq> CHR ''-'') (dashed h) = h"
proof -
  have "\<forall>c\<in>set h. c \<noteq> CHR ''-''"
    using assms(2) lower_hex_not_dash by (auto simp: list_all_iff)
  then have "filter (\<lambda>c. c \<noteq> CHR ''-'') h = h" by simp
  then show f: "filter (\<lambda>c. c \<noteq> CHR ''-'') (dashed h) = h"
    using assms(1) by (simp add: filter_dashed)
  show "canonical_uuid (dashed h)"
    using assms f by (simp add: canonical_uuid_def)
qed

lemma canonical_valid: "canonical_uuid x \<Longrightarrow> valid_uuid x"
  using lower_hex_any_hex by (auto simp: canonical_uuid_def valid_uuid_def Let_def list_all_iff)

subsection \<open>Padding\<close>

lemma length_padStart: "length s \<le> k \<Longrightarrow> length (padStart k z s) = k"
  by (simp add: padStart_def)

lemma padStart_zero: "0 < k \<Longrightarrow> padStart k z [z] = replicate k z"
proof -
  assume "0 < k"
  then obtain j where "k = Suc j" by (cases k) auto
  then show ?thesis by (simp add: padStart_def replicate_append_same)
qed

lemma pad_value:
  assumes "distinct A" "1 < length A" "indexOf A z = Some 0" "0 \<le> n"
  shows "radix_value A 0 (padStart k z (if n = 0 then [z] else radix_digits A n)) = Some n"
proof (cases "n = 0")
  case True
  have "radix_value A 0 (replicate (k - 1) z @ [z]) = radix_value A 0 [z]"
    using assms(3) by (rule radix_value_zeros)
  then show ?thesis using True assms(3) by (simp add: padStart_def)
next
  case False
  then show ?thesis
    using assms by (simp add: padStart_def radix_value_zeros radix_value_digits)
qed

lemma pad_digits:
  assumes "1 < length A" "indexOf A z = Some 0" "radix_value A 0 s = Some n" "s \<noteq> []"
  shows "padStart (length s) z (if n = 0 then [z] else radix_digits A n) = s"
proof -
  have e: "replicate (length s - length (radix_digits A n)) z @ radix_digits A n = s"
    using assms(1,2,3) by (rule radix_digits_value)
  show ?thesis
  proof (cases "n = 0")
    case True
    have "radix_digits A 0 = []" by (subst radix_digits.simps) simp
    with e True have "replicate (length s) z = s" by simp
    moreover have "0 < length s" using assms(4) by simp
    ultimately show ?thesis using True by (simp add: padStart_zero)
  next
    case False
    then show ?thesis using e by (simp add: padStart_def)
  qed
qed

lemma pad_set:
  "z \<in> set A \<Longrightarrow> set (padStart k z (if n = 0 then [z] else radix_digits A n)) \<subseteq> set A"
  using radix_digits_set[of A n] by (auto simp: padStart_def)

lemma pad_length:
  assumes "1 < length A" "0 \<le> n" "n < int (length A) ^ k" "0 < k"
  shows "length (padStart k z (if n = 0 then [z] else radix_digits A n)) = k"
proof (cases "n = 0")
  case True
  then show ?thesis using assms(4) by (simp add: padStart_def)
next
  case False
  have "length (radix_digits A n) \<le> k" using assms(2,3) by (rule radix_digits_length)
  then show ?thesis using False by (simp add: padStart_def)
qed


subsection \<open>Encoding and decoding\<close>

lemma uuidToBase62_eq:
  "uuidToBase62 x =
     (case BigInt_0x (filter (\<lambda>c. c \<noteq> CHR ''-'') x) of
        Inl e \<Rightarrow> Inl e
      | Inr n \<Rightarrow> Inr (padStart 22 (CHR ''0'')
                  (if n = 0 then [CHR ''0''] else radix_digits BASE62_CHARS n)))"
  by (simp add: uuidToBase62_def uuidToBase62_loop_digits split: sum.splits)

lemma base62ToUuid_eq:
  "base62ToUuid t =
     (case base62_fold 0 t of
        Inl e \<Rightarrow> Inl e
      | Inr n \<Rightarrow> Inr (dashed (padStart 32 (CHR ''0'')
                  (if n = 0 then [CHR ''0''] else radix_digits ''0123456789abcdef'' n))))"
  by (simp add: base62ToUuid_def toString16_def toString16_loop_digits split: sum.splits)

lemma pow_128: "(2::int) ^ 128 = 16 ^ 32" "(16::int) ^ 32 \<le> 62 ^ 22"
  by simp_all

lemma valid_uuid_BigInt:
  assumes "valid_uuid x"
  shows "\<exists>n. BigInt_0x (filter (\<lambda>c. c \<noteq> CHR ''-'') x) = Inr n \<and> 0 \<le> n \<and> n < 2 ^ 128"
proof -
  let ?h = "filter (\<lambda>c. c \<noteq> CHR ''-'') x"
  have l: "length ?h = 32" and a: "list_all any_hex ?h"
    using assms by (simp_all add: valid_uuid_def Let_def)
  obtain n where n: "hex_value 0 ?h = Some n" using hex_value_total[OF a] by blast
  have "0 \<le> n \<and> n < (0 + 1) * 16 ^ length ?h" using n by (rule hex_value_bound) simp
  then have "0 \<le> n" "n < 2 ^ 128" using l by simp_all
  moreover have "?h \<noteq> []" using l by auto
  then have "BigInt_0x ?h = Inr n" using a n by (intro BigInt_0x_hex)
  ultimately show ?thesis by blast
qed

lemma uuidToBase62_token:
  assumes "BigInt_0x (filter (\<lambda>c. c \<noteq> CHR ''-'') x) = Inr n" "0 \<le> n" "n < 2 ^ 128"
  shows "\<exists>t. uuidToBase62 x = Inr t \<and> length t = 22 \<and> base62_fold 0 t = Inr n"
proof -
  let ?t = "padStart 22 (CHR ''0'') (if n = 0 then [CHR ''0''] else radix_digits BASE62_CHARS n)"
  have "n < int (length BASE62_CHARS) ^ 22" using assms(3) by (simp add: length_BASE62)
  then have "length ?t = 22"
    using assms(2) by (intro pad_length) (simp_all add: length_BASE62)
  moreover have "radix_value BASE62_CHARS 0 ?t = Some n"
    using assms(2)
    by (intro pad_value distinct_BASE62 indexOf_BASE62_zero) (simp_all add: length_BASE62)
  ultimately show ?thesis using assms(1) by (simp add: uuidToBase62_eq base62_fold_value)
qed

lemma base62ToUuid_canonical:
  assumes "base62_fold 0 t = Inr n"
  shows "\<exists>u. base62ToUuid t = Inr u \<and> canonical_uuid u"
proof -
  let ?h = "padStart 32 (CHR ''0'') (if n = 0 then [CHR ''0''] else radix_digits ''0123456789abcdef'' n)"
  have "set ?h \<subseteq> set ''0123456789abcdef''" by (rule pad_set) simp
  then have lh: "list_all lower_hex (take 32 ?h)"
    by (auto simp: list_all_iff lower_hex_def dest!: in_set_takeD)
  have "32 \<le> length ?h" by (simp add: padStart_def)
  then have "length (take 32 ?h) = 32" by simp
  then have "canonical_uuid (dashed (take 32 ?h))" using lh by (rule canonical_dashed)
  then show ?thesis using assms by (simp add: base62ToUuid_eq dashed_take)
qed

lemma base62_fold_invalid:
  "list_all base62_char p \<Longrightarrow> \<not> base62_char c \<Longrightarrow>
     base62_fold acc (p @ c # r) = Inl (Error (''Invalid base62 character: '' @ [c]))"
proof (induction p arbitrary: acc)
  case Nil
  then show ?case using indexOf_None[of BASE62_CHARS c] by (simp add: base62_char_def)
next
  case (Cons a p)
  then obtain d where "indexOf BASE62_CHARS a = Some d"
    using indexOf_None[of BASE62_CHARS a] by (cases "indexOf BASE62_CHARS a") (auto simp: base62_char_def)
  then show ?case using Cons by simp
qed

lemma base62_fold_valid:
  "list_all base62_char t \<Longrightarrow> \<exists>n. base62_fold acc t = Inr n"
proof -
  assume "list_all base62_char t"
  then have "list_all (\<lambda>c. c \<in> set BASE62_CHARS) t"
    by (simp add: list_all_iff base62_char_def)
  then show ?thesis
    using radix_value_total[of BASE62_CHARS t acc] by (simp add: base62_fold_value)
qed

lemma decode_encode:
  assumes "canonical_uuid x"
  shows "\<exists>t n. uuidToBase62 x = Inr t \<and> length t = 22 \<and> base62_fold 0 t = Inr n \<and> n < 2 ^ 128
           \<and> base62ToUuid t = Inr x"
proof -
  let ?h = "filter (\<lambda>c. c \<noteq> CHR ''-'') x"
  have l: "length ?h = 32" and a: "list_all lower_hex ?h" and x: "x = dashed ?h"
    using assms by (simp_all add: canonical_uuid_def Let_def)
  obtain n where n: "BigInt_0x ?h = Inr n" "0 \<le> n" "n < 2 ^ 128"
    using valid_uuid_BigInt[OF canonical_valid[OF assms]] by blast
  have ah: "list_all any_hex ?h" using a lower_hex_any_hex by (auto simp: list_all_iff)
  have ne: "?h \<noteq> []" using l by auto
  have "hex_value 0 ?h = Some n"
    using n(1) ne by (simp add: BigInt_0x_def trim_hex[OF ah] split: option.splits)
  then have v: "radix_value ''0123456789abcdef'' 0 ?h = Some n"
    using a by (simp add: hex_value_lower)
  have "padStart (length ?h) (CHR ''0'')
      (if n = 0 then [CHR ''0''] else radix_digits ''0123456789abcdef'' n) = ?h"
    using v ne by (intro pad_digits) simp_all
  then have p: "padStart 32 (CHR ''0'')
      (if n = 0 then [CHR ''0''] else radix_digits ''0123456789abcdef'' n) = ?h"
    using l by simp
  obtain t where t: "uuidToBase62 x = Inr t" "length t = 22" "base62_fold 0 t = Inr n"
    using uuidToBase62_token[OF n] by blast
  have "base62ToUuid t = Inr (dashed ?h)"
    using t(3) p by (simp add: base62ToUuid_eq)
  then have "base62ToUuid t = Inr x" using x by simp
  then show ?thesis using t n(3) by blast
qed

lemma encode_decode:
  assumes "length t = 22" "base62_fold 0 t = Inr n" "n < 2 ^ 128"
  shows "\<exists>u. base62ToUuid t = Inr u \<and> canonical_uuid u \<and> uuidToBase62 u = Inr t"
proof -
  let ?A = "''0123456789abcdef''"
  let ?h = "padStart 32 (CHR ''0'') (if n = 0 then [CHR ''0''] else radix_digits ?A n)"
  have v: "radix_value BASE62_CHARS 0 t = Some n" using assms(2) by (simp add: base62_fold_value)
  have n0: "0 \<le> n" using radix_value_nonneg[OF v] by simp
  have u: "base62ToUuid t = Inr (dashed ?h)" using assms(2) by (simp add: base62ToUuid_eq)
  have "n < int (length ?A) ^ 32" using assms(3) by simp
  then have l: "length ?h = 32" using n0 by (intro pad_length) simp_all
  have "set ?h \<subseteq> set ?A" by (rule pad_set) simp
  then have lh: "list_all lower_hex ?h" by (auto simp: list_all_iff lower_hex_def)
  have c: "canonical_uuid (dashed ?h)" and f: "filter (\<lambda>c. c \<noteq> CHR ''-'') (dashed ?h) = ?h"
    using canonical_dashed[OF l lh] by simp_all
  have "radix_value ?A 0 ?h = Some n" using n0 by (intro pad_value) simp_all
  then have hv: "hex_value 0 ?h = Some n" using lh by (simp add: hex_value_lower)
  have ah: "list_all any_hex ?h" using lh lower_hex_any_hex by (auto simp: list_all_iff)
  have "?h \<noteq> []" using l by auto
  then have b: "BigInt_0x ?h = Inr n" using ah hv by (intro BigInt_0x_hex)
  have "t \<noteq> []" using assms(1) by auto
  then have "padStart (length t) (CHR ''0'')
      (if n = 0 then [CHR ''0''] else radix_digits BASE62_CHARS n) = t"
    using v by (intro pad_digits indexOf_BASE62_zero) (simp_all add: length_BASE62)
  then have "uuidToBase62 (dashed ?h) = Inr t"
    using assms(1) b f by (simp add: uuidToBase62_eq)
  then show ?thesis using u c by blast
qed


section \<open>Properties of the JavaScript primitives of the route\<close>

lemma get_without:
  "get (without k sp) k' = (if k' = k then None else get sp k')"
  by (induction sp) (auto simp: get_def without_def)

lemma bit_length_le: "m < 2 ^ k \<Longrightarrow> bit_length m \<le> k"
proof (induction k arbitrary: m)
  case 0
  then have "\<not> 0 < m" by simp
  then show ?case by (subst bit_length.simps) simp
next
  case (Suc k)
  show ?case
  proof (cases "0 < m")
    case True
    have "m div 2 < 2 ^ k" using Suc.prems by simp
    then have "bit_length (m div 2) \<le> k" by (rule Suc.IH)
    then show ?thesis using True by (subst bit_length.simps) simp
  next
    case False
    then show ?thesis by (subst bit_length.simps) simp
  qed
qed

lemma bit_length_gt: "k < bit_length m \<Longrightarrow> 2 ^ k \<le> m"
  using bit_length_le[of m k] by (cases "m < 2 ^ k") auto

lemma round_magnitude_small: "m < 2 ^ 53 \<Longrightarrow> round_magnitude m = m"
  using bit_length_le[of m 53] by (simp add: round_magnitude_def)

lemma round_magnitude_2_53: "round_magnitude (2 ^ 53) = 2 ^ 53"
  by code_simp

lemma round_magnitude_pos: "0 < m \<Longrightarrow> 0 < round_magnitude m"
proof -
  assume m: "0 < m"
  let ?e = "bit_length m - 53"
  show ?thesis
  proof (cases "?e = 0")
    case True
    then show ?thesis using m by (simp add: round_magnitude_def)
  next
    case False
    then have "?e < bit_length m" by simp
    then have "(2::int) ^ ?e \<le> m" by (rule bit_length_gt)
    then have "(2::int) ^ ?e div 2 ^ ?e \<le> m div 2 ^ ?e"
      by (rule zdiv_mono1) simp
    then have "1 \<le> m div 2 ^ ?e" by simp
    then have "0 < (if 2 ^ (?e - 1) < m mod 2 ^ ?e \<or> (m mod 2 ^ ?e = 2 ^ (?e - 1) \<and> odd (m div 2 ^ ?e))
        then m div 2 ^ ?e + 1 else m div 2 ^ ?e) * (2::int) ^ ?e"
      by auto
    then show ?thesis using False by (simp add: round_magnitude_def Let_def)
  qed
qed

lemma Number_value_exact: "\<bar>x\<bar> \<le> 2 ^ 53 \<Longrightarrow> Number_value x = Finite x"
proof -
  assume h: "\<bar>x\<bar> \<le> 2 ^ 53"
  have r: "round_magnitude \<bar>x\<bar> = \<bar>x\<bar>"
  proof (cases "\<bar>x\<bar> < 2 ^ 53")
    case True
    then show ?thesis by (rule round_magnitude_small)
  next
    case False
    then have "\<bar>x\<bar> = 2 ^ 53" using h by simp
    then show ?thesis using round_magnitude_2_53 by simp
  qed
  have "\<bar>x\<bar> < 2 ^ 1024" using h by (rule order.strict_trans1) simp
  then show ?thesis using r by (auto simp: Number_value_def Let_def)
qed

lemma Number_value_pos: "0 < n \<Longrightarrow> gt0 (Number_value n)"
  using round_magnitude_pos[of n] by (simp add: Number_value_def Let_def)

lemma gt0_cases: "gt0 v \<Longrightarrow> (\<exists>k. v = Finite k \<and> 0 < k) \<or> v = Infinity"
  by (cases v) auto

lemma Math_min_100:
  "gt0 v \<Longrightarrow> Math_min v (Finite 100) = (case v of Finite k \<Rightarrow> Finite (min k 100) | _ \<Rightarrow> Finite 100)"
  by (cases v) auto

lemma parseInt_examples:
  "parseInt [] = NaN" "parseInt ''0'' = Finite 0" "parseInt ''-5'' = Finite (- 5)"
  "parseInt ''abc'' = NaN" "parseInt ''150'' = Finite 150"
  by code_simp+

text \<open>Past \<open>2^53\<close> the value is rounded, ties to even, and past the doubles it is infinite.\<close>

lemma parseInt_rounding:
  "parseInt ''9007199254740993'' = Finite 9007199254740992"
  "parseInt ''9007199254740995'' = Finite 9007199254740996"
  "parseInt ''-9007199254740993'' = Finite (- 9007199254740992)"
  "parseInt (CHR ''2'' # replicate 308 (CHR ''0'')) = Infinity"
  by code_simp+

lemma radix_digit_10: "radix_digit 10 c = indexOf ''0123456789'' c"
  by (simp add: radix_digit_def)

lemma decimal_digit_iff: "decimal_digit c \<longleftrightarrow> radix_digit 10 c \<noteq> None"
  using indexOf_None[of "''0123456789''" c] by (simp add: decimal_digit_def radix_digit_10)

lemma parse_digits_value:
  "radix_value ''0123456789'' acc ds = Some n \<Longrightarrow> parse_digits 10 acc ds = n"
  by (induction ds arbitrary: acc) (auto simp: radix_digit_10 simp del: indexOf.simps split: option.splits)

lemma radix_value_decimal:
  "radix_value ''0123456789'' acc ds = Some n \<Longrightarrow> list_all decimal_digit ds"
proof (induction ds arbitrary: acc)
  case Nil
  then show ?case by simp
next
  case (Cons c ds)
  then obtain d where d: "indexOf ''0123456789'' c = Some d"
    and r: "radix_value ''0123456789'' (acc * 10 + int d) ds = Some n"
    by (auto simp del: indexOf.simps split: option.splits)
  have "decimal_digit c" using d by (simp add: decimal_digit_iff radix_digit_10 del: indexOf.simps)
  then show ?case using Cons.IH[OF r] by simp
qed

lemma decimal_digit_plain:
  "decimal_digit c \<Longrightarrow> \<not> js_whitespace c \<and> c \<noteq> CHR ''+'' \<and> c \<noteq> CHR ''-''"
  by (auto simp: decimal_digit_def js_whitespace_def)

lemma takeWhile_prefix:
  "list_all P ds \<Longrightarrow> (case rest of [] \<Rightarrow> True | c # _ \<Rightarrow> \<not> P c) \<Longrightarrow> takeWhile P (ds @ rest) = ds"
  by (induction ds) (auto split: list.splits)

lemma parseInt_decimal_prefix:
  assumes v: "radix_value ''0123456789'' 0 ds = Some n" and pos: "0 < n"
    and rest: "case rest of [] \<Rightarrow> True | c # _ \<Rightarrow> \<not> decimal_digit c"
  shows "parseInt (ds @ rest) = Number_value n"
proof -
  have all: "list_all decimal_digit ds" using v by (rule radix_value_decimal)
  obtain c cs where ds: "ds = c # cs" using v pos by (cases ds) auto
  have c: "decimal_digit c" using all ds by simp
  note plain = decimal_digit_plain[OF c]
  have S: "dropWhile js_whitespace (ds @ rest) = ds @ rest" using ds plain by simp
  have nohex: "take 2 (ds @ rest) \<noteq> ''0x'' \<and> take 2 (ds @ rest) \<noteq> ''0X''"
  proof (cases cs)
    case Nil
    show ?thesis
    proof (cases "c = CHR ''0''")
      case True
      then have "n = 0" using v ds Nil by simp
      then show ?thesis using pos by simp
    next
      case False
      then show ?thesis using ds by auto
    qed
  next
    case (Cons c' cs')
    then have "decimal_digit c'" using all ds by simp
    then have "c' \<noteq> CHR ''x'' \<and> c' \<noteq> CHR ''X''" by (auto simp: decimal_digit_def)
    then show ?thesis using ds Cons by auto
  qed
  have "(\<lambda>c. radix_digit 10 c \<noteq> None) = decimal_digit"
    by (rule ext) (simp add: decimal_digit_iff)
  then have Z: "takeWhile (\<lambda>c. radix_digit 10 c \<noteq> None) (ds @ rest) = ds"
    using takeWhile_prefix[OF all rest] by simp
  have pd: "parse_digits 10 0 ds = n" using v by (rule parse_digits_value)
  define s where "s = ds @ rest"
  have s1: "dropWhile js_whitespace s = s" using S by (simp add: s_def)
  have s2: "(case s of [] \<Rightarrow> 1 | c # _ \<Rightarrow> if c = CHR ''-'' then - 1 else (1::int)) = 1"
    using ds plain by (simp add: s_def)
  have s3: "(case s of [] \<Rightarrow> s | c # r \<Rightarrow> if c = CHR ''+'' \<or> c = CHR ''-'' then r else s) = s"
    using ds plain by (simp add: s_def)
  have s4: "\<not> (take 2 s = ''0x'' \<or> take 2 s = ''0X'')" using nohex by (simp add: s_def)
  have s5: "takeWhile (\<lambda>c. radix_digit 10 c \<noteq> None) s = ds" using Z by (simp add: s_def)
  have "parseInt s = Number_value n"
    unfolding parseInt_def Let_def s1 s2 s3 using s4 s5 pd ds by simp
  then show ?thesis by (simp add: s_def)
qed


section \<open>The stages of the handler\<close>

lemma GET_serve:
  "passes_canonical env req a \<Longrightarrow> GET env req = respond (serve env req a)"
  by (simp add: passes_canonical_def GET_def GET_try_def)

lemma serve_fetched:
  "upstream_ok env req a up \<Longrightarrow>
     serve env req a =
       (case parseTransformParams (searchParams (url req)) of
          None \<Rightarrow> Inr (passthrough up (mime_type a))
        | Some t \<Rightarrow>
            (case isAssetOfType env (mime_type a) (ASSET_CATEGORIES_IMAGES env) of
               Inl e \<Rightarrow> Inl e
             | Inr canResize \<Rightarrow>
                 if canResize then resize up t env else Inr (passthrough up (mime_type a))))"
  by (auto simp: upstream_ok_def serve_def split: sum.splits option.splits)

lemma serve_status:
  "serve env req a = Inr r \<Longrightarrow>
     r = Response (Text ''Service unavailable'') 503 [] \<or> r = Response (Text ''Not found'') 404 []
       \<or> resp_status r = 200"
  by (auto simp: serve_def passthrough_def resize_def Let_def split: sum.splits option.splits if_splits)

lemma checkCanonical_status:
  "checkCanonical env req a = Inr (Some r) \<Longrightarrow> resp_status r = 301"
  by (auto simp: checkCanonical_def Response_redirect_def Let_def split: sum.splits if_splits)

lemma lookup_early:
  "lookup env req = Inr (Inl r) \<Longrightarrow> r = Response (Text ''Not found'') 404 []"
  by (auto simp: lookup_def split: sum.splits option.splits if_splits)

lemma GET_responses:
  "resp_status (GET env req) = 200 \<or> resp_status (GET env req) = 301
     \<or> GET env req = Response (Text ''Not found'') 404 []
     \<or> GET env req = Response (Text ''Service unavailable'') 503 []
     \<or> GET env req = Response (Text ''Internal server error'') 500 []"
proof (cases "GET_try env req")
  case (Inl e)
  then show ?thesis by (simp add: GET_def respond_def)
next
  case (Inr r)
  then have g: "GET env req = r" by (simp add: GET_def respond_def)
  from Inr consider (early) "lookup env req = Inr (Inl r)"
    | (redirect) a where "checkCanonical env req a = Inr (Some r)"
    | (served) a where "serve env req a = Inr r"
    by (auto simp: GET_try_def split: sum.splits option.splits)
  then show ?thesis
  proof cases
    case early
    then show ?thesis using g lookup_early by blast
  next
    case redirect
    then show ?thesis using g checkCanonical_status by blast
  next
    case served
    then show ?thesis using g serve_status by blast
  qed
qed


section \<open>Properties of the extension lookup\<close>

lemma mime_table_values: "map_of mime_table m = Some ext \<Longrightarrow> ext \<noteq> []"
proof -
  assume "map_of mime_table m = Some ext"
  then have "(m, ext) \<in> set mime_table" by (rule map_of_SomeD)
  then show ?thesis by (auto simp: mime_table_def)
qed

lemma split_nonempty: "split sep s \<noteq> []"
  by (induction s) (auto split: list.splits)

lemma takeWhile_rev_all:
  "sep \<notin> set s \<Longrightarrow> rev (takeWhile (\<lambda>c. c \<noteq> sep) (rev s @ t)) = rev (takeWhile (\<lambda>c. c \<noteq> sep) t) @ s"
proof -
  assume "sep \<notin> set s"
  then have "takeWhile (\<lambda>c. c \<noteq> sep) (rev s @ t) = rev s @ takeWhile (\<lambda>c. c \<noteq> sep) t"
    by (intro takeWhile_append2) auto
  then show ?thesis by simp
qed

lemma split_shape:
  "split sep s = x # xs \<Longrightarrow>
     (xs = [] \<longrightarrow> x = s \<and> sep \<notin> set s) \<and>
     (xs \<noteq> [] \<longrightarrow> sep \<in> set s \<and> last xs = rev (takeWhile (\<lambda>c. c \<noteq> sep) (rev s)))"
proof (induction s arbitrary: x xs)
  case Nil
  then show ?case by simp
next
  case (Cons c s)
  obtain y ys where y: "split sep s = y # ys" using split_nonempty[of sep s] by (cases "split sep s") auto
  note ih = Cons.IH[OF y]
  show ?case
  proof (cases "c = sep")
    case True
    then have x: "x = []" "xs = y # ys" using Cons.prems y by simp_all
    show ?thesis
    proof (cases "ys = []")
      case True
      then show ?thesis using ih x \<open>c = sep\<close> takeWhile_rev_all[of sep s "[c]"] by simp
    next
      case False
      then have "sep \<in> set (rev s)" using ih by simp
      then have "takeWhile (\<lambda>c. c \<noteq> sep) (rev s @ [c]) = takeWhile (\<lambda>c. c \<noteq> sep) (rev s)"
        by (intro takeWhile_append1) auto
      then show ?thesis using ih x False by simp
    qed
  next
    case False
    then have x: "x = c # y" "xs = ys" using Cons.prems y by simp_all
    show ?thesis
    proof (cases "ys = []")
      case True
      then show ?thesis using ih x False by simp
    next
      case False
      then have "sep \<in> set (rev s)" using ih by simp
      then have "takeWhile (\<lambda>c. c \<noteq> sep) (rev s @ [c]) = takeWhile (\<lambda>c. c \<noteq> sep) (rev s)"
        by (intro takeWhile_append1) auto
      then show ?thesis using ih x False by simp
    qed
  qed
qed

lemma pop_split:
  "pop (split sep s) = Some (rev (takeWhile (\<lambda>c. c \<noteq> sep) (rev s)))"
proof -
  obtain x xs where e: "split sep s = x # xs" using split_nonempty[of sep s] by (cases "split sep s") auto
  note sh = split_shape[OF e]
  show ?thesis
  proof (cases "xs = []")
    case True
    then have "sep \<notin> set s" using sh by auto
    then have "rev (takeWhile (\<lambda>c. c \<noteq> sep) (rev s)) = s"
      using takeWhile_rev_all[of sep s "[]"] by simp
    then show ?thesis using e True sh by (simp add: pop_def)
  next
    case False
    then obtain z zs where "rev xs = z # zs" by (cases "rev xs") auto
    moreover from this have "last xs = z" by (metis last_rev list.sel(1) rev_rev_ident hd_rev)
    ultimately show ?thesis using e False sh by (simp add: pop_def)
  qed
qed

lemma Object_prototype_keys_no_slash:
  "CHR ''/'' \<in> set m \<Longrightarrow> m \<notin> set Object_prototype_keys"
  by (auto simp: Object_prototype_keys_def)

lemma mimeToExtension_listed:
  "map_of mime_table m = Some ext \<Longrightarrow> mimeToExtension m = JString ext"
  using mime_table_values[of m ext] by (simp add: mimeToExtension_def map_lookup_def js_or_def)

lemma mimeToExtension_unlisted:
  assumes "map_of mime_table m = None" "m \<notin> set Object_prototype_keys"
  shows "mimeToExtension m =
    (let seg = rev (takeWhile (\<lambda>c. c \<noteq> CHR ''/'') (rev m))
     in if seg \<noteq> [] then JString seg else JString ''bin'')"
  using assms by (simp add: mimeToExtension_def map_lookup_def js_or_def pop_split Let_def)


section \<open>Properties of the identifier codec\<close>

lemma base62_fold_chars: "base62_fold acc t = Inr n \<Longrightarrow> list_all base62_char t"
proof (induction t arbitrary: acc)
  case Nil
  then show ?case by simp
next
  case (Cons c t)
  then obtain d where d: "indexOf BASE62_CHARS c = Some d"
    and r: "base62_fold (acc * 62 + int d) t = Inr n"
    by (auto split: option.splits)
  have "c \<in> set BASE62_CHARS" using indexOf_None[of BASE62_CHARS c] d by auto
  then show ?case using Cons.IH[OF r] by (simp add: base62_char_def)
qed

lemma first_offender:
  "\<not> list_all P s \<Longrightarrow> \<exists>p c r. s = p @ c # r \<and> list_all P p \<and> \<not> P c"
proof (induction s)
  case Nil
  then show ?case by simp
next
  case (Cons a s)
  show ?case
  proof (cases "P a")
    case True
    with Cons obtain p c r where "s = p @ c # r" "list_all P p" "\<not> P c" by auto
    then have "a # s = (a # p) @ c # r \<and> list_all P (a # p) \<and> \<not> P c" using True by simp
    then show ?thesis by blast
  next
    case False
    then have "a # s = [] @ a # s \<and> list_all P [] \<and> \<not> P a" by simp
    then show ?thesis by blast
  qed
qed

text \<open>
  C1, amended. Encoding a canonical identifier (8-4-4-4-12 lower-case hexadecimal digits)
  gives a token of 22 alphabet characters whose value is below \<open>2^128\<close>, and decoding that
  token gives the identifier back. Decoding a token of 22 alphabet characters whose value
  is below \<open>2^128\<close> gives a canonical identifier, and encoding that identifier gives the
  token back. So the codec is a bijection between the canonical identifiers and the
  22-character tokens of value below \<open>2^128\<close>.
\<close>

theorem codec_roundtrip:
  "(canonical_uuid x \<longrightarrow>
      (\<exists>t' n'. uuidToBase62 x = Inr t' \<and> valid_token t' \<and> base62_fold 0 t' = Inr n'
         \<and> n' < 2 ^ 128 \<and> base62ToUuid t' = Inr x)) \<and>
   (valid_token t \<and> base62_fold 0 t = Inr n \<and> n < 2 ^ 128 \<longrightarrow>
      (\<exists>u. base62ToUuid t = Inr u \<and> canonical_uuid u \<and> uuidToBase62 u = Inr t))"
proof (intro conjI impI)
  assume "canonical_uuid x"
  then obtain t' n' where *: "uuidToBase62 x = Inr t'" "length t' = 22"
    "base62_fold 0 t' = Inr n'" "n' < 2 ^ 128" "base62ToUuid t' = Inr x"
    using decode_encode by blast
  have "valid_token t'" using *(2) base62_fold_chars[OF *(3)] by (simp add: valid_token_def)
  then show "\<exists>t' n'. uuidToBase62 x = Inr t' \<and> valid_token t' \<and> base62_fold 0 t' = Inr n'
         \<and> n' < 2 ^ 128 \<and> base62ToUuid t' = Inr x"
    using * by blast
next
  assume "valid_token t \<and> base62_fold 0 t = Inr n \<and> n < 2 ^ 128"
  then show "\<exists>u. base62ToUuid t = Inr u \<and> canonical_uuid u \<and> uuidToBase62 u = Inr t"
    using encode_decode[of t n] by (simp add: valid_token_def)
qed

theorem codec_roundtrip_witness:
  "canonical_uuid ''8f2a4b1c-7d8e-4f12-b345-6789abcdef01'' \<and>
   valid_token ''7n42DGM5Tflk9n8mt7Fhc7'' \<and>
   base62_fold 0 ''7n42DGM5Tflk9n8mt7Fhc7'' = Inr (2 ^ 128 - 1) \<and>
   (\<exists>t' n'. uuidToBase62 ''8f2a4b1c-7d8e-4f12-b345-6789abcdef01'' = Inr t' \<and> valid_token t'
      \<and> base62_fold 0 t' = Inr n' \<and> n' < 2 ^ 128
      \<and> base62ToUuid t' = Inr ''8f2a4b1c-7d8e-4f12-b345-6789abcdef01'') \<and>
   (\<exists>u. base62ToUuid ''7n42DGM5Tflk9n8mt7Fhc7'' = Inr u \<and> canonical_uuid u
      \<and> uuidToBase62 u = Inr ''7n42DGM5Tflk9n8mt7Fhc7'')"
proof -
  have a: "canonical_uuid ''8f2a4b1c-7d8e-4f12-b345-6789abcdef01''" by code_simp
  have b: "valid_token ''7n42DGM5Tflk9n8mt7Fhc7''" by code_simp
  have c: "base62_fold 0 ''7n42DGM5Tflk9n8mt7Fhc7'' = Inr (2 ^ 128 - 1)" by code_simp
  have d: "(2::int) ^ 128 - 1 < 2 ^ 128" by simp
  show ?thesis
    using a b c d
      codec_roundtrip[of "''8f2a4b1c-7d8e-4f12-b345-6789abcdef01''"
        "''7n42DGM5Tflk9n8mt7Fhc7''" "2 ^ 128 - 1"]
    by blast
qed

text \<open>
  C1 as stated fails in both directions. The token \<open>7n42DGM5Tflk9n8mt7Fhc8\<close> consists of
  22 alphabet characters and denotes \<open>2^128\<close>; its 33 hexadecimal digits are cut to 32, and
  encoding the result gives another token. The identifier written with upper-case digits
  comes back in lower case.
\<close>

theorem codec_roundtrip_counterexample:
  "valid_token ''7n42DGM5Tflk9n8mt7Fhc8'' \<and>
   base62ToUuid ''7n42DGM5Tflk9n8mt7Fhc8'' = Inr ''10000000-0000-0000-0000-000000000000'' \<and>
   uuidToBase62 ''10000000-0000-0000-0000-000000000000'' = Inr ''0UBsO4td5jEbl6wfnwZr6G'' \<and>
   ''0UBsO4td5jEbl6wfnwZr6G'' \<noteq> ''7n42DGM5Tflk9n8mt7Fhc8'' \<and>
   valid_uuid ''8F2A4B1C-7D8E-4F12-B345-6789ABCDEF01'' \<and>
   uuidToBase62 ''8F2A4B1C-7D8E-4F12-B345-6789ABCDEF01'' = Inr ''4M9EJZZtPhcA3iTjadiWkD'' \<and>
   base62ToUuid ''4M9EJZZtPhcA3iTjadiWkD'' = Inr ''8f2a4b1c-7d8e-4f12-b345-6789abcdef01'' \<and>
   ''8f2a4b1c-7d8e-4f12-b345-6789abcdef01'' \<noteq> ''8F2A4B1C-7D8E-4F12-B345-6789ABCDEF01''"
  by code_simp

text \<open>
  C6. \<open>base62ToUuid\<close> throws exactly when its input has a character outside the alphabet.
  The error names the first such character, whatever precedes and follows it, and nothing
  else is returned. An input of alphabet characters only, of any length, decodes to a
  canonical dashed identifier.
\<close>

theorem base62ToUuid_invalid_token:
  "((\<exists>e. base62ToUuid b62 = Inl e) \<longleftrightarrow> \<not> list_all base62_char b62) \<and>
   (list_all base62_char p \<and> \<not> base62_char c \<longrightarrow>
      base62ToUuid (p @ c # r) = Inl (Error (''Invalid base62 character: '' @ [c]))) \<and>
   (list_all base62_char b62 \<longrightarrow> (\<exists>u. base62ToUuid b62 = Inr u \<and> canonical_uuid u))"
proof -
  have ok: "\<exists>u. base62ToUuid s = Inr u \<and> canonical_uuid u" if h: "list_all base62_char s" for s
  proof -
    obtain n where "base62_fold 0 s = Inr n" using base62_fold_valid[OF h] by blast
    then show ?thesis by (rule base62ToUuid_canonical)
  qed
  have bad: "base62ToUuid (p @ c # r) = Inl (Error (''Invalid base62 character: '' @ [c]))"
    if "list_all base62_char p" "\<not> base62_char c" for p c r
    using base62_fold_invalid[OF that] by (simp add: base62ToUuid_def)
  have "\<exists>e. base62ToUuid b62 = Inl e" if h: "\<not> list_all base62_char b62"
  proof -
    obtain p c r where "b62 = p @ c # r" "list_all base62_char p" "\<not> base62_char c"
      using first_offender[OF h] by blast
    then show ?thesis using bad by blast
  qed
  moreover have "\<not> list_all base62_char b62" if "base62ToUuid b62 = Inl e" for e
    using ok[of b62] that by auto
  ultimately show ?thesis using ok bad by blast
qed

theorem base62ToUuid_invalid_token_witness:
  "list_all base62_char ''6sFz'' \<and> \<not> base62_char (CHR ''-'') \<and>
   list_all base62_char ''6sFz3Kx9qB2nJhWm4PdYrT0'' \<and>
   \<not> list_all base62_char ''6sFz-3K_x'' \<and>
   (\<exists>e. base62ToUuid ''6sFz-3K_x'' = Inl e) \<and>
   base62ToUuid (''6sFz'' @ CHR ''-'' # ''3K_x'') = Inl (Error (''Invalid base62 character: '' @ [CHR ''-''])) \<and>
   (\<exists>u. base62ToUuid ''6sFz3Kx9qB2nJhWm4PdYrT0'' = Inr u \<and> canonical_uuid u)"
proof -
  have a: "list_all base62_char ''6sFz''" by code_simp
  have b: "\<not> base62_char (CHR ''-'')" by code_simp
  have c: "list_all base62_char ''6sFz3Kx9qB2nJhWm4PdYrT0''" by code_simp
  have d: "\<not> list_all base62_char ''6sFz-3K_x''" by code_simp
  show ?thesis
    using a b c d
      base62ToUuid_invalid_token[of "''6sFz-3K_x''" "''6sFz''" "CHR ''-''" "''3K_x''"]
      base62ToUuid_invalid_token[of "''6sFz3Kx9qB2nJhWm4PdYrT0''" "''6sFz''" "CHR ''-''" "''3K_x''"]
    by blast
qed

text \<open>
  C7. \<open>uuidToBase62\<close> returns exactly 22 characters for every identifier of the form
  8-4-4-4-12 in hexadecimal digits of either case, and the all-zero identifier encodes to
  22 zero symbols.
\<close>

theorem uuidToBase62_length:
  "(valid_uuid x \<longrightarrow> (\<exists>t. uuidToBase62 x = Inr t \<and> length t = 22)) \<and>
   uuidToBase62 ''00000000-0000-0000-0000-000000000000'' = Inr ''0000000000000000000000''"
proof
  show "valid_uuid x \<longrightarrow> (\<exists>t. uuidToBase62 x = Inr t \<and> length t = 22)"
  proof
    assume "valid_uuid x"
    then obtain n where "BigInt_0x (filter (\<lambda>c. c \<noteq> CHR ''-'') x) = Inr n" "0 \<le> n" "n < 2 ^ 128"
      using valid_uuid_BigInt by blast
    then show "\<exists>t. uuidToBase62 x = Inr t \<and> length t = 22"
      using uuidToBase62_token by blast
  qed
  show "uuidToBase62 ''00000000-0000-0000-0000-000000000000'' = Inr ''0000000000000000000000''"
    by code_simp
qed

theorem uuidToBase62_length_witness:
  "valid_uuid ''FFFFFFFF-ffff-FFFF-ffff-FFFFFFFFFFFF'' \<and>
   (\<exists>t. uuidToBase62 ''FFFFFFFF-ffff-FFFF-ffff-FFFFFFFFFFFF'' = Inr t \<and> length t = 22)"
proof -
  have a: "valid_uuid ''FFFFFFFF-ffff-FFFF-ffff-FFFFFFFFFFFF''" by code_simp
  show ?thesis
    using a uuidToBase62_length[of "''FFFFFFFF-ffff-FFFF-ffff-FFFFFFFFFFFF''"] by blast
qed


text \<open>
  C9. A listed MIME type gives its extension, and an unlisted one its last segment or
  \<open>bin\<close>, for every argument that is not the name of an inherited property: see
  \<open>mimeToExtension_listed\<close> and \<open>mimeToExtension_unlisted\<close>. On such a name the function,
  declared to return a string, does not: \<open>constructor\<close> is not in the table and its last
  segment is \<open>constructor\<close>, yet the lookup finds the inherited property and that object
  is returned.
\<close>

theorem mimeToExtension_inherited_key:
  "map_of mime_table ''constructor'' = None \<and>
   pop (split (CHR ''/'') ''constructor'') = Some ''constructor'' \<and>
   mimeToExtension ''constructor'' = JObject ''constructor'' \<and>
   mimeToExtension ''constructor'' \<noteq> JString ''constructor''"
  by code_simp


section \<open>Properties of the transform parameters\<close>

text \<open>
  C4. Whatever else the query holds: a width of \<open>0\<close>, \<open>-5\<close> or \<open>abc\<close> gives the result of the
  query without any width, and likewise for the height; \<open>quality=150\<close> gives quality 100;
  \<open>quality=0\<close> gives the result of the query without any quality, which is quality 80 as
  soon as a dimension is positive; and when the three parameters are missing, or none of
  them parses to a positive integer, the result is \<open>null\<close>. No operation of the parser
  can throw, so the function has no error result.
\<close>

theorem parseTransformParams_absent:
  "(get sp ''width'' = Some v \<and> v \<in> {''0'', ''-5'', ''abc''} \<longrightarrow>
      parseTransformParams sp = parseTransformParams (without ''width'' sp)) \<and>
   (get sp ''height'' = Some v \<and> v \<in> {''0'', ''-5'', ''abc''} \<longrightarrow>
      parseTransformParams sp = parseTransformParams (without ''height'' sp)) \<and>
   (get sp ''quality'' = Some ''150'' \<longrightarrow>
      (\<exists>t. parseTransformParams sp = Some t \<and> quality t = Finite 100)) \<and>
   (get sp ''quality'' = Some ''0'' \<longrightarrow>
      parseTransformParams sp = parseTransformParams (without ''quality'' sp) \<and>
      (gt0 (parseInt (or_empty (get sp ''width''))) \<or> gt0 (parseInt (or_empty (get sp ''height'')))
         \<longrightarrow> (\<exists>t. parseTransformParams sp = Some t \<and> quality t = Finite 80))) \<and>
   (get sp ''width'' = None \<and> get sp ''height'' = None \<and> get sp ''quality'' = None \<longrightarrow>
      parseTransformParams sp = None) \<and>
   (\<not> gt0 (parseInt (or_empty (get sp ''width''))) \<and>
    \<not> gt0 (parseInt (or_empty (get sp ''height''))) \<and>
    \<not> gt0 (parseInt (or_empty (get sp ''quality''))) \<longrightarrow> parseTransformParams sp = None)"
  by (auto simp: parseTransformParams_def get_without or_empty_def parseInt_examples Let_def)

theorem parseTransformParams_absent_witness:
  "get [(''width'', ''-5''), (''height'', ''abc''), (''quality'', ''150'')] ''width'' = Some ''-5'' \<and>
   get [(''width'', ''-5''), (''height'', ''abc''), (''quality'', ''150'')] ''height'' = Some ''abc'' \<and>
   get [(''width'', ''-5''), (''height'', ''abc''), (''quality'', ''150'')] ''quality'' = Some ''150'' \<and>
   parseTransformParams [(''width'', ''-5''), (''height'', ''abc''), (''quality'', ''150'')]
     = parseTransformParams [(''height'', ''abc''), (''quality'', ''150'')] \<and>
   parseTransformParams [(''width'', ''-5''), (''height'', ''abc''), (''quality'', ''150'')]
     = parseTransformParams [(''width'', ''-5''), (''quality'', ''150'')] \<and>
   (\<exists>t. parseTransformParams [(''width'', ''-5''), (''height'', ''abc''), (''quality'', ''150'')] = Some t
      \<and> quality t = Finite 100) \<and>
   get [(''width'', ''200''), (''quality'', ''0'')] ''quality'' = Some ''0'' \<and>
   gt0 (parseInt (or_empty (get [(''width'', ''200''), (''quality'', ''0'')] ''width''))) \<and>
   (\<exists>t. parseTransformParams [(''width'', ''200''), (''quality'', ''0'')] = Some t
      \<and> quality t = Finite 80) \<and>
   get [(''w'', ''1'')] ''width'' = None \<and> get [(''w'', ''1'')] ''height'' = None \<and>
   get [(''w'', ''1'')] ''quality'' = None \<and>
   parseTransformParams [(''w'', ''1'')] = None"
proof -
  let ?a = "[(''width'', ''-5''), (''height'', ''abc''), (''quality'', ''150'')]"
  let ?b = "[(''width'', ''200''), (''quality'', ''0'')]"
  let ?c = "[(''w'', ''1'')]"
  have a: "get ?a ''width'' = Some ''-5''" "get ?a ''height'' = Some ''abc''"
    "get ?a ''quality'' = Some ''150''" "''-5'' \<in> {''0'', ''-5'', ''abc''}"
    "''abc'' \<in> {''0'', ''-5'', ''abc''}"
    "without ''width'' ?a = [(''height'', ''abc''), (''quality'', ''150'')]"
    "without ''height'' ?a = [(''width'', ''-5''), (''quality'', ''150'')]"
    by (simp_all add: get_def without_def)
  have b: "get ?b ''quality'' = Some ''0''" "gt0 (parseInt (or_empty (get ?b ''width'')))"
    by code_simp+
  have c: "get ?c ''width'' = None" "get ?c ''height'' = None" "get ?c ''quality'' = None"
    by (simp_all add: get_def)
  have r1: "parseTransformParams ?a = parseTransformParams (without ''width'' ?a)"
    using parseTransformParams_absent[of ?a "''-5''"] a(1,4) by blast
  have r2: "parseTransformParams ?a = parseTransformParams (without ''height'' ?a)"
    using parseTransformParams_absent[of ?a "''abc''"] a(2,5) by blast
  have r3: "\<exists>t. parseTransformParams ?a = Some t \<and> quality t = Finite 100"
    using parseTransformParams_absent[of ?a "''0''"] a(3) by blast
  have r4: "\<exists>t. parseTransformParams ?b = Some t \<and> quality t = Finite 80"
    using parseTransformParams_absent[of ?b "''0''"] b by blast
  have r5: "parseTransformParams ?c = None"
    using parseTransformParams_absent[of ?c "''0''"] c by blast
  show ?thesis
    using a(1,2,3) b c r1[unfolded a(6)] r2[unfolded a(7)] r3 r4 r5 by blast
qed

text \<open>
  C10, amended. A value made of decimal digits of value \<open>n > 0\<close>, followed by anything that
  does not start with a decimal digit, parses to what the digits alone parse to: the
  Number value of \<open>n\<close>, which is positive, and is \<open>n\<close> itself as long as \<open>n\<close> is at most
  \<open>2^53\<close>. So the parameter is present: a width or a height with that Number value, and a
  quality with that value clamped to at most 100.
\<close>

theorem parseInt_decimal_prefix_present:
  "radix_value ''0123456789'' 0 ds = Some n \<and> 0 < n \<and>
   (case rest of [] \<Rightarrow> True | c # _ \<Rightarrow> \<not> decimal_digit c) \<longrightarrow>
     parseInt (ds @ rest) = Number_value n \<and> parseInt (ds @ rest) = parseInt ds \<and>
     gt0 (Number_value n) \<and> (n \<le> 2 ^ 53 \<longrightarrow> Number_value n = Finite n) \<and>
     (get sp ''width'' = Some (ds @ rest) \<longrightarrow>
        (\<exists>t. parseTransformParams sp = Some t \<and> width t = Some (Number_value n))) \<and>
     (get sp ''height'' = Some (ds @ rest) \<longrightarrow>
        (\<exists>t. parseTransformParams sp = Some t \<and> height t = Some (Number_value n))) \<and>
     (get sp ''quality'' = Some (ds @ rest) \<longrightarrow>
        (\<exists>t. parseTransformParams sp = Some t
           \<and> quality t = Math_min (Number_value n) (Finite 100)
           \<and> (n \<le> 2 ^ 53 \<longrightarrow> quality t = Finite (min n 100))))"
proof
  assume h: "radix_value ''0123456789'' 0 ds = Some n \<and> 0 < n \<and>
   (case rest of [] \<Rightarrow> True | c # _ \<Rightarrow> \<not> decimal_digit c)"
  then have p: "parseInt (ds @ rest) = Number_value n"
    by (intro parseInt_decimal_prefix) simp_all
  have "parseInt (ds @ []) = Number_value n" using h by (intro parseInt_decimal_prefix) simp_all
  then have d: "parseInt ds = Number_value n" by simp
  have g: "gt0 (Number_value n)" using h by (intro Number_value_pos) simp
  have e: "Number_value n = Finite n" if "n \<le> 2 ^ 53"
    using that h by (intro Number_value_exact) simp
  have w: "\<exists>t. parseTransformParams sp = Some t \<and> width t = Some (Number_value n)"
    if "get sp ''width'' = Some (ds @ rest)"
    using that p g by (simp add: parseTransformParams_def or_empty_def Let_def)
  have ht: "\<exists>t. parseTransformParams sp = Some t \<and> height t = Some (Number_value n)"
    if "get sp ''height'' = Some (ds @ rest)"
    using that p g by (simp add: parseTransformParams_def or_empty_def Let_def)
  have q: "\<exists>t. parseTransformParams sp = Some t
           \<and> quality t = Math_min (Number_value n) (Finite 100)
           \<and> (n \<le> 2 ^ 53 \<longrightarrow> quality t = Finite (min n 100))"
    if "get sp ''quality'' = Some (ds @ rest)"
    using that p g e by (auto simp: parseTransformParams_def or_empty_def Let_def)
  show "parseInt (ds @ rest) = Number_value n \<and> parseInt (ds @ rest) = parseInt ds \<and>
     gt0 (Number_value n) \<and> (n \<le> 2 ^ 53 \<longrightarrow> Number_value n = Finite n) \<and>
     (get sp ''width'' = Some (ds @ rest) \<longrightarrow>
        (\<exists>t. parseTransformParams sp = Some t \<and> width t = Some (Number_value n))) \<and>
     (get sp ''height'' = Some (ds @ rest) \<longrightarrow>
        (\<exists>t. parseTransformParams sp = Some t \<and> height t = Some (Number_value n))) \<and>
     (get sp ''quality'' = Some (ds @ rest) \<longrightarrow>
        (\<exists>t. parseTransformParams sp = Some t
           \<and> quality t = Math_min (Number_value n) (Finite 100)
           \<and> (n \<le> 2 ^ 53 \<longrightarrow> quality t = Finite (min n 100))))"
    using p d g e w ht q by simp
qed

theorem parseInt_decimal_prefix_present_witness:
  "radix_value ''0123456789'' 0 ''150'' = Some 150 \<and> (0::int) < 150 \<and>
   \<not> decimal_digit (CHR ''p'') \<and> (150::int) \<le> 2 ^ 53 \<and>
   parseInt ''150px'' = Finite 150 \<and> parseInt ''150px'' = parseInt ''150'' \<and>
   (\<exists>t. parseTransformParams [(''width'', ''150px'')] = Some t \<and> width t = Some (Finite 150)) \<and>
   (\<exists>t. parseTransformParams [(''height'', ''150px'')] = Some t \<and> height t = Some (Finite 150)) \<and>
   (\<exists>t. parseTransformParams [(''quality'', ''150px'')] = Some t \<and> quality t = Finite 100)"
proof -
  have a: "radix_value ''0123456789'' 0 ''150'' = Some 150" by code_simp
  have b: "\<not> decimal_digit (CHR ''p'')" by code_simp
  have c: "(case ''px'' of [] \<Rightarrow> True | c # _ \<Rightarrow> \<not> decimal_digit c)" using b by simp
  have g: "get [(''width'', ''150px'')] ''width'' = Some (''150'' @ ''px'')"
    "get [(''height'', ''150px'')] ''height'' = Some (''150'' @ ''px'')"
    "get [(''quality'', ''150px'')] ''quality'' = Some (''150'' @ ''px'')"
    by (simp_all add: get_def)
  have p: "(0::int) < 150" "(150::int) \<le> 2 ^ 53" by simp_all
  have e: "Number_value 150 = Finite 150"
    using parseInt_decimal_prefix_present[of "''150''" 150 "''px''" "[(''width'', ''150px'')]"]
      a p c by blast
  have r0: "parseInt (''150'' @ ''px'') = Number_value 150"
    "parseInt (''150'' @ ''px'') = parseInt ''150''"
    using parseInt_decimal_prefix_present[of "''150''" 150 "''px''" "[(''width'', ''150px'')]"]
      a p c by blast+
  have r1: "\<exists>t. parseTransformParams [(''width'', ''150px'')] = Some t
      \<and> width t = Some (Number_value 150)"
    using parseInt_decimal_prefix_present[of "''150''" 150 "''px''" "[(''width'', ''150px'')]"]
      a p c g(1) by blast
  have r2: "\<exists>t. parseTransformParams [(''height'', ''150px'')] = Some t
      \<and> height t = Some (Number_value 150)"
    using parseInt_decimal_prefix_present[of "''150''" 150 "''px''" "[(''height'', ''150px'')]"]
      a p c g(2) by blast
  have r3: "\<exists>t. parseTransformParams [(''quality'', ''150px'')] = Some t
      \<and> quality t = Finite (min 150 100)"
    using parseInt_decimal_prefix_present[of "''150''" 150 "''px''" "[(''quality'', ''150px'')]"]
      a p c g(3) by blast
  show ?thesis using a b p r0 r1 r2 r3 unfolding e by simp
qed

text \<open>
  C10 as stated fails where the value of the prefix is not kept: \<open>width=9007199254740993px\<close>
  has the prefix \<open>2^53 + 1\<close>, which is no double, and the width is \<open>2^53\<close>; and
  \<open>quality=150px\<close> gives the quality 100.
\<close>

theorem parseInt_decimal_prefix_present_counterexample:
  "radix_value ''0123456789'' 0 ''9007199254740993'' = Some 9007199254740993 \<and>
   parseInt ''9007199254740993px'' = Finite 9007199254740992 \<and>
   parseTransformParams [(''width'', ''9007199254740993px'')]
     = Some \<lparr> width = Some (Finite 9007199254740992), height = None, quality = Finite 80 \<rparr> \<and>
   radix_value ''0123456789'' 0 ''150'' = Some 150 \<and>
   parseInt ''150px'' = Finite 150 \<and>
   parseTransformParams [(''quality'', ''150px'')]
     = Some \<lparr> width = None, height = None, quality = Finite 100 \<rparr>"
  by code_simp


section \<open>Properties of the handler\<close>

text \<open>The example world at work.\<close>

lemma example_decode:
  "base62ToUuid ''4M9EJZZtPhcA3iTjadiWkD'' = Inr ''8f2a4b1c-7d8e-4f12-b345-6789abcdef01''"
  by code_simp

lemma example_lookup:
  assumes "getAssetForProxy env = (\<lambda>assetId. Inr (Some a))" "truthy (storage_path a)"
  shows "lookup env (example_request\<lparr> name := n \<rparr>) = Inr (Inr a)"
  using assms by (simp add: lookup_def example_decode example_request_def)

lemma example_passes:
  assumes "getAssetForProxy env = (\<lambda>assetId. Inr (Some a))" "truthy (storage_path a)"
    "getAssetProxyUrl env = getAssetProxyUrl example_env"
  shows "passes_canonical env example_request a"
proof -
  have "lookup env example_request = Inr (Inr a)"
    using example_lookup[OF assms(1,2), of "name example_request"] by simp
  then show ?thesis
    using assms(3)
    by (simp add: passes_canonical_def checkCanonical_def
        example_request_def example_env_def truthy_def or_empty_def)
qed

lemma example_asset_path: "truthy (storage_path example_asset)"
  by (simp add: example_asset_def truthy_def)

lemma example_passes_asset:
  assumes "getAssetForProxy env = getAssetForProxy example_env"
    "getAssetProxyUrl env = getAssetProxyUrl example_env"
  shows "passes_canonical env example_request example_asset"
proof -
  have "getAssetForProxy env = (\<lambda>assetId. Inr (Some example_asset))"
    using assms(1) by (simp add: example_env_def)
  then show ?thesis using example_asset_path assms(2) by (rule example_passes)
qed

lemma example_upstream:
  assumes "passes_canonical env example_request a" "storage_path a = storage_path example_asset"
    "getSupabaseAdmin env = getSupabaseAdmin example_env"
    "STORAGE_BUCKET env = STORAGE_BUCKET example_env" "fetch env = fetch example_env"
  shows "upstream_ok env example_request a \<lparr> ok = True, body = [1, 2, 3], arrayBuffer = Inr [1, 2, 3] \<rparr>"
  using assms by (simp add: upstream_ok_def example_env_def)

lemma example_transform:
  "parseTransformParams (searchParams (url example_request))
     = Some \<lparr> width = None, height = None, quality = Finite 90 \<rparr>"
proof -
  have "parseInt ''90'' = Finite 90" by code_simp
  then show ?thesis
    by (simp add: example_request_def parseTransformParams_def get_def or_empty_def
        parseInt_examples)
qed

lemma reaches_passes: "reaches_storage env req a \<Longrightarrow> passes_canonical env req a"
  by (auto simp: reaches_storage_def passes_canonical_def lookup_def checkCanonical_def
      split: sum.splits)

lemma example_reaches:
  assumes "hash req = hash example_request" "name req = name example_request"
    "getAssetForProxy env = (\<lambda>assetId. Inr (Some a))" "truthy (storage_path a)"
    "getAssetProxyUrl env = getAssetProxyUrl example_env"
  shows "reaches_storage env req a"
  using assms
  by (simp add: reaches_storage_def example_decode example_request_def example_env_def
      truthy_def or_empty_def)

text \<open>
  C2. Every failure has its status and its body, whatever the collaborators are. An
  undecodable token, a missing asset and an asset without storage path give 404
  \<open>Not found\<close>. When the request gets as far as the storage client, a missing client
  gives 503 \<open>Service unavailable\<close> and an upstream response that is not \<open>ok\<close> gives 404
  \<open>Not found\<close>. An exception of any collaborator on the way gives 500
  \<open>Internal server error\<close>: of the catalog, of the canonical path, of the URL constructor
  of the redirect, of the storage client, of its public URL, of \<open>fetch\<close>, of the image
  test, of reading the upstream body, and of the transcoder, with a resize step or
  without. And every response that is neither a 200 nor a 301 is one of these three.
\<close>

theorem GET_failure_responses:
  "((\<exists>e. base62ToUuid (hash req) = Inl e) \<longrightarrow> GET env req = NotFound) \<and>
   (base62ToUuid (hash req) = Inr i \<longrightarrow>
      ((\<exists>e. getAssetForProxy env i = Inl e) \<longrightarrow> GET env req = InternalServerError) \<and>
      (getAssetForProxy env i = Inr None \<longrightarrow> GET env req = NotFound) \<and>
      (getAssetForProxy env i = Inr (Some a) \<longrightarrow>
         (\<not> truthy (storage_path a) \<longrightarrow> GET env req = NotFound) \<and>
         (truthy (storage_path a) \<longrightarrow>
            ((\<exists>e. getAssetProxyUrl env a = Inl e) \<longrightarrow> GET env req = InternalServerError) \<and>
            (getAssetProxyUrl env a = Inr cp \<and> truthy cp
               \<and> join ''/'' (name req) \<noteq> join ''/'' (drop 3 (split (CHR ''/'') (or_empty cp)))
               \<and> (\<exists>e. newURL env (or_empty cp) (origin (url req)) = Inl e) \<longrightarrow>
               GET env req = InternalServerError)))) \<and>
   (reaches_storage env req a \<longrightarrow>
      ((\<exists>e. getSupabaseAdmin env = Inl e) \<longrightarrow> GET env req = InternalServerError) \<and>
      (getSupabaseAdmin env = Inr None \<longrightarrow> GET env req = ServiceUnavailable) \<and>
      (getSupabaseAdmin env = Inr (Some sb) \<longrightarrow>
         ((\<exists>e. sb (STORAGE_BUCKET env) (storage_path a) = Inl e) \<longrightarrow>
            GET env req = InternalServerError) \<and>
         (sb (STORAGE_BUCKET env) (storage_path a) = Inr pu \<longrightarrow>
            ((\<exists>e. fetch env pu = Inl e) \<longrightarrow> GET env req = InternalServerError) \<and>
            (fetch env pu = Inr up \<longrightarrow>
               (\<not> ok up \<longrightarrow> GET env req = NotFound) \<and>
               (ok up \<and> parseTransformParams (searchParams (url req)) = Some t \<longrightarrow>
                  ((\<exists>e. isAssetOfType env (mime_type a) (ASSET_CATEGORIES_IMAGES env) = Inl e) \<longrightarrow>
                     GET env req = InternalServerError) \<and>
                  (isAssetOfType env (mime_type a) (ASSET_CATEGORIES_IMAGES env) = Inr True \<longrightarrow>
                     ((\<exists>e. arrayBuffer up = Inl e) \<longrightarrow> GET env req = InternalServerError) \<and>
                     (arrayBuffer up = Inr buf
                        \<and> (\<exists>e. sharp env buf
                              ((if num_truthy (width t) \<or> num_truthy (height t)
                                then [Resize (width t) (height t) ''cover'' True] else [])
                               @ [Webp (quality t)]) = Inl e) \<longrightarrow>
                        GET env req = InternalServerError))))))) \<and>
   ((\<exists>e. GET_try env req = Inl e) \<longrightarrow> GET env req = InternalServerError) \<and>
   (resp_status (GET env req) = 200 \<or> resp_status (GET env req) = 301
      \<or> GET env req = NotFound \<or> GET env req = ServiceUnavailable
      \<or> GET env req = InternalServerError)"
proof -
  have token: "GET env req = NotFound" if "\<exists>e. base62ToUuid (hash req) = Inl e"
    using that by (auto simp: GET_def GET_try_def lookup_def respond_def)
  have catalog: "GET env req = InternalServerError"
    if "base62ToUuid (hash req) = Inr i" "\<exists>e. getAssetForProxy env i = Inl e"
    using that by (auto simp: GET_def GET_try_def lookup_def respond_def)
  have missing: "GET env req = NotFound"
    if "base62ToUuid (hash req) = Inr i" "getAssetForProxy env i = Inr None"
    using that by (simp add: GET_def GET_try_def lookup_def respond_def)
  have nopath: "GET env req = NotFound"
    if "base62ToUuid (hash req) = Inr i" "getAssetForProxy env i = Inr (Some a)"
      "\<not> truthy (storage_path a)"
    using that by (simp add: GET_def GET_try_def lookup_def respond_def)
  have found: "lookup env req = Inr (Inr a)"
    if "base62ToUuid (hash req) = Inr i" "getAssetForProxy env i = Inr (Some a)"
      "truthy (storage_path a)"
    using that by (simp add: lookup_def)
  have canonical: "GET env req = InternalServerError"
    if "base62ToUuid (hash req) = Inr i" "getAssetForProxy env i = Inr (Some a)"
      "truthy (storage_path a)" "\<exists>e. getAssetProxyUrl env a = Inl e"
    using found[OF that(1,2,3)] that(4)
    by (auto simp: GET_def GET_try_def checkCanonical_def respond_def)
  have redirect: "GET env req = InternalServerError"
    if "base62ToUuid (hash req) = Inr i" "getAssetForProxy env i = Inr (Some a)"
      "truthy (storage_path a)"
      "getAssetProxyUrl env a = Inr cp \<and> truthy cp
         \<and> join ''/'' (name req) \<noteq> join ''/'' (drop 3 (split (CHR ''/'') (or_empty cp)))
         \<and> (\<exists>e. newURL env (or_empty cp) (origin (url req)) = Inl e)"
    using found[OF that(1,2,3)] that(4)
    by (auto simp: GET_def GET_try_def checkCanonical_def respond_def)
  have served: "GET env req = respond (serve env req a)" if "reaches_storage env req a"
    using that by (intro GET_serve reaches_passes)
  have admin: "GET env req = InternalServerError"
    if "reaches_storage env req a" "\<exists>e. getSupabaseAdmin env = Inl e"
    using served[OF that(1)] that(2) by (auto simp: serve_def respond_def)
  have noclient: "GET env req = ServiceUnavailable"
    if "reaches_storage env req a" "getSupabaseAdmin env = Inr None"
    using served[OF that(1)] that(2) by (simp add: serve_def respond_def)
  have publicUrl: "GET env req = InternalServerError"
    if "reaches_storage env req a" "getSupabaseAdmin env = Inr (Some sb)"
      "\<exists>e. sb (STORAGE_BUCKET env) (storage_path a) = Inl e"
    using served[OF that(1)] that(2,3) by (auto simp: serve_def respond_def)
  have fetching: "GET env req = InternalServerError"
    if "reaches_storage env req a" "getSupabaseAdmin env = Inr (Some sb)"
      "sb (STORAGE_BUCKET env) (storage_path a) = Inr pu" "\<exists>e. fetch env pu = Inl e"
    using served[OF that(1)] that(2,3,4) by (auto simp: serve_def respond_def)
  have notok: "GET env req = NotFound"
    if "reaches_storage env req a" "getSupabaseAdmin env = Inr (Some sb)"
      "sb (STORAGE_BUCKET env) (storage_path a) = Inr pu" "fetch env pu = Inr up" "\<not> ok up"
    using served[OF that(1)] that(2,3,4,5) by (simp add: serve_def respond_def)
  have fetched: "GET env req =
      respond (case isAssetOfType env (mime_type a) (ASSET_CATEGORIES_IMAGES env) of
                 Inl e \<Rightarrow> Inl e
               | Inr canResize \<Rightarrow>
                   if canResize then resize up t env else Inr (passthrough up (mime_type a)))"
    if "reaches_storage env req a" "getSupabaseAdmin env = Inr (Some sb)"
      "sb (STORAGE_BUCKET env) (storage_path a) = Inr pu" "fetch env pu = Inr up"
      "ok up \<and> parseTransformParams (searchParams (url req)) = Some t"
    using served[OF that(1)] that(2,3,4,5) by (simp add: serve_def)
  have imagetest: "GET env req = InternalServerError"
    if "reaches_storage env req a" "getSupabaseAdmin env = Inr (Some sb)"
      "sb (STORAGE_BUCKET env) (storage_path a) = Inr pu" "fetch env pu = Inr up"
      "ok up \<and> parseTransformParams (searchParams (url req)) = Some t"
      "\<exists>e. isAssetOfType env (mime_type a) (ASSET_CATEGORIES_IMAGES env) = Inl e"
    using fetched[OF that(1,2,3,4,5)] that(6) by (auto simp: respond_def)
  have reading: "GET env req = InternalServerError"
    if "reaches_storage env req a" "getSupabaseAdmin env = Inr (Some sb)"
      "sb (STORAGE_BUCKET env) (storage_path a) = Inr pu" "fetch env pu = Inr up"
      "ok up \<and> parseTransformParams (searchParams (url req)) = Some t"
      "isAssetOfType env (mime_type a) (ASSET_CATEGORIES_IMAGES env) = Inr True"
      "\<exists>e. arrayBuffer up = Inl e"
    using fetched[OF that(1,2,3,4,5)] that(6,7) by (auto simp: respond_def resize_def)
  have transcoding: "GET env req = InternalServerError"
    if "reaches_storage env req a" "getSupabaseAdmin env = Inr (Some sb)"
      "sb (STORAGE_BUCKET env) (storage_path a) = Inr pu" "fetch env pu = Inr up"
      "ok up \<and> parseTransformParams (searchParams (url req)) = Some t"
      "isAssetOfType env (mime_type a) (ASSET_CATEGORIES_IMAGES env) = Inr True"
      "arrayBuffer up = Inr buf
         \<and> (\<exists>e. sharp env buf
               ((if num_truthy (width t) \<or> num_truthy (height t)
                 then [Resize (width t) (height t) ''cover'' True] else [])
                @ [Webp (quality t)]) = Inl e)"
    using fetched[OF that(1,2,3,4,5)] that(6,7) by (auto simp: respond_def resize_def Let_def)
  have thrown: "GET env req = InternalServerError" if "\<exists>e. GET_try env req = Inl e"
    using that by (auto simp: GET_def respond_def)
  show ?thesis
    apply (intro conjI impI)
    subgoal by (rule token)
    subgoal by (rule catalog)
    subgoal by (rule missing)
    subgoal by (rule nopath)
    subgoal by (rule canonical)
    subgoal by (rule redirect)
    subgoal by (rule admin)
    subgoal by (rule noclient)
    subgoal by (rule publicUrl)
    subgoal by (rule fetching)
    subgoal by (rule notok)
    subgoal by (rule imagetest)
    subgoal by (rule reading)
    subgoal by (rule transcoding)
    subgoal by (rule thrown)
    subgoal by (rule GET_responses)
    done
qed

theorem GET_failure_responses_witness:
  "GET example_env (example_request\<lparr> hash := ''6sFz-3K_x'' \<rparr>) = NotFound \<and>
   GET (example_env\<lparr> getAssetForProxy := (\<lambda>assetId. Inl (Error ''timeout'')) \<rparr>) example_request
     = InternalServerError \<and>
   GET (example_env\<lparr> getAssetForProxy := (\<lambda>assetId. Inr None) \<rparr>) example_request = NotFound \<and>
   GET (example_env\<lparr> getAssetForProxy :=
          (\<lambda>assetId. Inr (Some (example_asset\<lparr> storage_path := None \<rparr>))) \<rparr>) example_request
     = NotFound \<and>
   GET (example_env\<lparr> getAssetProxyUrl := (\<lambda>asset. Inl (Error ''no filename'')) \<rparr>) example_request
     = InternalServerError \<and>
   GET (example_env\<lparr> newURL := (\<lambda>path base. Inl (Error ''Invalid URL'')) \<rparr>)
       (example_request\<lparr> name := [''old-name.png''] \<rparr>)
     = InternalServerError \<and>
   GET (example_env\<lparr> getSupabaseAdmin := Inl (Error ''no credentials'') \<rparr>) example_request
     = InternalServerError \<and>
   GET (example_env\<lparr> getSupabaseAdmin := Inr None \<rparr>) example_request = ServiceUnavailable \<and>
   GET (example_env\<lparr> getSupabaseAdmin := Inr (Some (\<lambda>bucket path. Inl (Error ''no bucket''))) \<rparr>)
       example_request
     = InternalServerError \<and>
   GET (example_env\<lparr> fetch := (\<lambda>publicUrl. Inl (Error ''network'')) \<rparr>) example_request
     = InternalServerError \<and>
   GET (example_env\<lparr> fetch := (\<lambda>publicUrl. Inr \<lparr> ok = False, body = [], arrayBuffer = Inr [] \<rparr>) \<rparr>)
       example_request
     = NotFound \<and>
   GET (example_env\<lparr> isAssetOfType := (\<lambda>mime category. Inl (Error ''no categories'')) \<rparr>)
       example_request
     = InternalServerError \<and>
   GET (example_env\<lparr> fetch := (\<lambda>publicUrl.
          Inr \<lparr> ok = True, body = [1, 2, 3], arrayBuffer = Inl (Error ''aborted'') \<rparr>) \<rparr>)
       example_request
     = InternalServerError \<and>
   GET (example_env\<lparr> sharp := (\<lambda>buffer pipeline. Inl (Error ''corrupt'')) \<rparr>) example_request
     = InternalServerError \<and>
   GET (example_env\<lparr> sharp := (\<lambda>buffer pipeline. Inl (Error ''corrupt'')) \<rparr>)
       (example_request\<lparr> url := (url example_request)
          \<lparr> search := ''?width=200'', searchParams := [(''width'', ''200'')] \<rparr> \<rparr>)
     = InternalServerError"
proof -
  let ?id = "''8f2a4b1c-7d8e-4f12-b345-6789abcdef01''"
  let ?up = "\<lparr> ok = True, body = [1, 2, 3], arrayBuffer = Inr [1, 2, 3] \<rparr> :: fetched"
  let ?down = "\<lparr> ok = False, body = [], arrayBuffer = Inr [] \<rparr> :: fetched"
  let ?cut = "\<lparr> ok = True, body = [1, 2, 3], arrayBuffer = Inl (Error ''aborted'') \<rparr> :: fetched"
  let ?sb = "\<lambda>bucket path. Inr (''https://store.example/'' @ bucket @ ''/'' @ or_empty path)
    :: js_error + string"
  let ?nb = "\<lambda>bucket path. Inl (Error ''no bucket'') :: js_error + string"
  let ?pu = "''https://store.example/assets/uploads/photo.png''"
  let ?cp = "Some ''/a/4M9EJZZtPhcA3iTjadiWkD/photo.png''"
  let ?t = "\<lparr> width = None, height = None, quality = Finite 90 \<rparr>"
  let ?tw = "\<lparr> width = Some (Finite 200), height = None, quality = Finite 80 \<rparr>"
  have hd: "base62ToUuid (hash example_request) = Inr ?id"
    by (simp add: example_request_def example_decode)
  have ga: "getAssetForProxy example_env = (\<lambda>assetId. Inr (Some example_asset))"
    by (simp add: example_env_def)
  note path = example_asset_path
  have reach: "reaches_storage env example_request example_asset"
    if "getAssetForProxy env = getAssetForProxy example_env"
      "getAssetProxyUrl env = getAssetProxyUrl example_env" for env :: "unit env"
    using that ga path by (intro example_reaches) simp_all
  have client: "getSupabaseAdmin example_env = Inr (Some ?sb)"
    "?sb (STORAGE_BUCKET example_env) (storage_path example_asset) = Inr ?pu"
    "fetch example_env ?pu = Inr ?up" "ok ?up"
    "isAssetOfType example_env (mime_type example_asset) (ASSET_CATEGORIES_IMAGES example_env)
       = Inr True"
    "arrayBuffer ?up = Inr [1, 2, 3]"
    by (simp_all add: example_env_def example_asset_def or_empty_def)
  note tr = example_transform
  \<comment> \<open>an undecodable token\<close>
  let ?r1 = "example_request\<lparr> hash := ''6sFz-3K_x'' \<rparr>"
  have "base62ToUuid ''6sFz-3K_x'' = Inl (Error ''Invalid base62 character: -'')" by code_simp
  then have h1: "\<exists>e. base62ToUuid (hash ?r1) = Inl e" by simp
  have c1: "GET example_env ?r1 = NotFound"
    using h1 by (rule GET_failure_responses[where req = ?r1 and env = example_env,
          THEN conjunct1, THEN mp])
  \<comment> \<open>the catalog throws\<close>
  let ?e2 = "example_env\<lparr> getAssetForProxy := (\<lambda>assetId. Inl (Error ''timeout'')) \<rparr>"
  have h2: "\<exists>e. getAssetForProxy ?e2 ?id = Inl e" by simp
  note L2 = GET_failure_responses[where req = example_request and env = ?e2 and i = ?id,
      THEN conjunct2, THEN conjunct1, THEN mp, OF hd]
  have c2: "GET ?e2 example_request = InternalServerError"
    using h2 by (rule L2[THEN conjunct1, THEN mp])
  \<comment> \<open>no such asset\<close>
  let ?e3 = "example_env\<lparr> getAssetForProxy := (\<lambda>assetId. Inr None) \<rparr>"
  have h3: "getAssetForProxy ?e3 ?id = Inr None" by simp
  note L3 = GET_failure_responses[where req = example_request and env = ?e3 and i = ?id,
      THEN conjunct2, THEN conjunct1, THEN mp, OF hd]
  have c3: "GET ?e3 example_request = NotFound"
    using h3 by (rule L3[THEN conjunct2, THEN conjunct1, THEN mp])
  \<comment> \<open>an asset without storage path\<close>
  let ?a4 = "example_asset\<lparr> storage_path := None \<rparr>"
  let ?e4 = "example_env\<lparr> getAssetForProxy := (\<lambda>assetId. Inr (Some ?a4)) \<rparr>"
  have h4: "getAssetForProxy ?e4 ?id = Inr (Some ?a4)" "\<not> truthy (storage_path ?a4)"
    by (simp_all add: truthy_def)
  note L4 = GET_failure_responses[where req = example_request and env = ?e4 and i = ?id
      and a = ?a4, THEN conjunct2, THEN conjunct1, THEN mp, OF hd,
      THEN conjunct2, THEN conjunct2, THEN mp, OF h4(1)]
  have c4: "GET ?e4 example_request = NotFound"
    using h4(2) by (rule L4[THEN conjunct1, THEN mp])
  \<comment> \<open>the canonical path throws\<close>
  let ?e5 = "example_env\<lparr> getAssetProxyUrl := (\<lambda>asset. Inl (Error ''no filename'')) \<rparr>"
  have h5: "getAssetForProxy ?e5 ?id = Inr (Some example_asset)"
    "\<exists>e. getAssetProxyUrl ?e5 example_asset = Inl e"
    by (simp_all add: ga)
  note L5 = GET_failure_responses[where req = example_request and env = ?e5 and i = ?id
      and a = example_asset, THEN conjunct2, THEN conjunct1, THEN mp, OF hd,
      THEN conjunct2, THEN conjunct2, THEN mp, OF h5(1), THEN conjunct2, THEN mp, OF path]
  have c5: "GET ?e5 example_request = InternalServerError"
    using h5(2) by (rule L5[THEN conjunct1, THEN mp])
  \<comment> \<open>the URL of the redirect cannot be built\<close>
  let ?r6 = "example_request\<lparr> name := [''old-name.png''] \<rparr>"
  let ?e6 = "example_env\<lparr> newURL := (\<lambda>path base. Inl (Error ''Invalid URL'')) \<rparr>"
  have h6: "base62ToUuid (hash ?r6) = Inr ?id"
    "getAssetForProxy ?e6 ?id = Inr (Some example_asset)"
    "getAssetProxyUrl ?e6 example_asset = Inr ?cp \<and> truthy ?cp
       \<and> join ''/'' (name ?r6) \<noteq> join ''/'' (drop 3 (split (CHR ''/'') (or_empty ?cp)))
       \<and> (\<exists>e. newURL ?e6 (or_empty ?cp) (origin (url ?r6)) = Inl e)"
    using hd by (simp_all add: ga) (simp add: example_env_def truthy_def or_empty_def)
  note L6 = GET_failure_responses[where req = ?r6 and env = ?e6 and i = ?id
      and a = example_asset and cp = ?cp, THEN conjunct2, THEN conjunct1, THEN mp, OF h6(1),
      THEN conjunct2, THEN conjunct2, THEN mp, OF h6(2), THEN conjunct2, THEN mp, OF path]
  have c6: "GET ?e6 ?r6 = InternalServerError"
    using h6(3) by (rule L6[THEN conjunct2, THEN mp])
  \<comment> \<open>the storage client throws\<close>
  let ?e7 = "example_env\<lparr> getSupabaseAdmin := Inl (Error ''no credentials'') \<rparr>"
  have r7: "reaches_storage ?e7 example_request example_asset" by (simp add: reach)
  have h7: "\<exists>e. getSupabaseAdmin ?e7 = Inl e" by simp
  note L7 = GET_failure_responses[where req = example_request and env = ?e7
      and a = example_asset, THEN conjunct2, THEN conjunct2, THEN conjunct1, THEN mp, OF r7]
  have c7: "GET ?e7 example_request = InternalServerError"
    using h7 by (rule L7[THEN conjunct1, THEN mp])
  \<comment> \<open>no storage client\<close>
  let ?e8 = "example_env\<lparr> getSupabaseAdmin := Inr None \<rparr>"
  have r8: "reaches_storage ?e8 example_request example_asset" by (simp add: reach)
  have h8: "getSupabaseAdmin ?e8 = Inr None" by simp
  note L8 = GET_failure_responses[where req = example_request and env = ?e8
      and a = example_asset, THEN conjunct2, THEN conjunct2, THEN conjunct1, THEN mp, OF r8]
  have c8: "GET ?e8 example_request = ServiceUnavailable"
    using h8 by (rule L8[THEN conjunct2, THEN conjunct1, THEN mp])
  \<comment> \<open>the public URL throws\<close>
  let ?e9 = "example_env\<lparr> getSupabaseAdmin := Inr (Some ?nb) \<rparr>"
  have r9: "reaches_storage ?e9 example_request example_asset" by (simp add: reach)
  have h9: "getSupabaseAdmin ?e9 = Inr (Some ?nb)"
    "\<exists>e. ?nb (STORAGE_BUCKET ?e9) (storage_path example_asset) = Inl e"
    by simp_all
  note L9 = GET_failure_responses[where req = example_request and env = ?e9
      and a = example_asset and sb = ?nb, THEN conjunct2, THEN conjunct2, THEN conjunct1,
      THEN mp, OF r9, THEN conjunct2, THEN conjunct2, THEN mp, OF h9(1)]
  have c9: "GET ?e9 example_request = InternalServerError"
    using h9(2) by (rule L9[THEN conjunct1, THEN mp])
  \<comment> \<open>the fetch throws\<close>
  let ?e10 = "example_env\<lparr> fetch := (\<lambda>publicUrl. Inl (Error ''network'')) \<rparr>"
  have r10: "reaches_storage ?e10 example_request example_asset" by (simp add: reach)
  have h10: "getSupabaseAdmin ?e10 = Inr (Some ?sb)"
    "?sb (STORAGE_BUCKET ?e10) (storage_path example_asset) = Inr ?pu"
    "\<exists>e. fetch ?e10 ?pu = Inl e"
    using client(1,2) by simp_all
  note L10 = GET_failure_responses[where req = example_request and env = ?e10
      and a = example_asset and sb = ?sb and pu = ?pu, THEN conjunct2, THEN conjunct2,
      THEN conjunct1, THEN mp, OF r10, THEN conjunct2, THEN conjunct2, THEN mp, OF h10(1),
      THEN conjunct2, THEN mp, OF h10(2)]
  have c10: "GET ?e10 example_request = InternalServerError"
    using h10(3) by (rule L10[THEN conjunct1, THEN mp])
  \<comment> \<open>the upstream fetch does not succeed\<close>
  let ?e11 = "example_env\<lparr> fetch := (\<lambda>publicUrl. Inr ?down) \<rparr>"
  have r11: "reaches_storage ?e11 example_request example_asset" by (simp add: reach)
  have h11: "getSupabaseAdmin ?e11 = Inr (Some ?sb)"
    "?sb (STORAGE_BUCKET ?e11) (storage_path example_asset) = Inr ?pu"
    "fetch ?e11 ?pu = Inr ?down" "\<not> ok ?down"
    using client(1,2) by simp_all
  note L11 = GET_failure_responses[where req = example_request and env = ?e11
      and a = example_asset and sb = ?sb and pu = ?pu and up = ?down, THEN conjunct2,
      THEN conjunct2, THEN conjunct1, THEN mp, OF r11, THEN conjunct2, THEN conjunct2, THEN mp,
      OF h11(1), THEN conjunct2, THEN mp, OF h11(2), THEN conjunct2, THEN mp, OF h11(3)]
  have c11: "GET ?e11 example_request = NotFound"
    using h11(4) by (rule L11[THEN conjunct1, THEN mp])
  \<comment> \<open>the image test throws\<close>
  let ?e12 = "example_env\<lparr> isAssetOfType := (\<lambda>mime category. Inl (Error ''no categories'')) \<rparr>"
  have r12: "reaches_storage ?e12 example_request example_asset" by (simp add: reach)
  have h12: "getSupabaseAdmin ?e12 = Inr (Some ?sb)"
    "?sb (STORAGE_BUCKET ?e12) (storage_path example_asset) = Inr ?pu"
    "fetch ?e12 ?pu = Inr ?up"
    "ok ?up \<and> parseTransformParams (searchParams (url example_request)) = Some ?t"
    "\<exists>e. isAssetOfType ?e12 (mime_type example_asset) (ASSET_CATEGORIES_IMAGES ?e12) = Inl e"
    using client(1,2,3) tr by simp_all
  note L12 = GET_failure_responses[where req = example_request and env = ?e12
      and a = example_asset and sb = ?sb and pu = ?pu and up = ?up and t = ?t, THEN conjunct2,
      THEN conjunct2, THEN conjunct1, THEN mp, OF r12, THEN conjunct2, THEN conjunct2, THEN mp,
      OF h12(1), THEN conjunct2, THEN mp, OF h12(2), THEN conjunct2, THEN mp, OF h12(3),
      THEN conjunct2, THEN mp, OF h12(4)]
  have c12: "GET ?e12 example_request = InternalServerError"
    using h12(5) by (rule L12[THEN conjunct1, THEN mp])
  \<comment> \<open>the upstream body cannot be read\<close>
  let ?e13 = "example_env\<lparr> fetch := (\<lambda>publicUrl. Inr ?cut) \<rparr>"
  have r13: "reaches_storage ?e13 example_request example_asset" by (simp add: reach)
  have h13: "getSupabaseAdmin ?e13 = Inr (Some ?sb)"
    "?sb (STORAGE_BUCKET ?e13) (storage_path example_asset) = Inr ?pu"
    "fetch ?e13 ?pu = Inr ?cut"
    "ok ?cut \<and> parseTransformParams (searchParams (url example_request)) = Some ?t"
    "isAssetOfType ?e13 (mime_type example_asset) (ASSET_CATEGORIES_IMAGES ?e13) = Inr True"
    "\<exists>e. arrayBuffer ?cut = Inl e"
    using client(1,2,5) tr by simp_all
  note L13 = GET_failure_responses[where req = example_request and env = ?e13
      and a = example_asset and sb = ?sb and pu = ?pu and up = ?cut and t = ?t, THEN conjunct2,
      THEN conjunct2, THEN conjunct1, THEN mp, OF r13, THEN conjunct2, THEN conjunct2, THEN mp,
      OF h13(1), THEN conjunct2, THEN mp, OF h13(2), THEN conjunct2, THEN mp, OF h13(3),
      THEN conjunct2, THEN mp, OF h13(4), THEN conjunct2, THEN mp, OF h13(5)]
  have c13: "GET ?e13 example_request = InternalServerError"
    using h13(6) by (rule L13[THEN conjunct1, THEN mp])
  \<comment> \<open>the transcoder fails, without a resize step and with one\<close>
  let ?e14 = "example_env\<lparr> sharp := (\<lambda>buffer pipeline. Inl (Error ''corrupt'')) \<rparr>"
  let ?r15 = "example_request\<lparr> url := (url example_request)
          \<lparr> search := ''?width=200'', searchParams := [(''width'', ''200'')] \<rparr> \<rparr>"
  have r14: "reaches_storage ?e14 example_request example_asset" by (simp add: reach)
  have h14: "getSupabaseAdmin ?e14 = Inr (Some ?sb)"
    "?sb (STORAGE_BUCKET ?e14) (storage_path example_asset) = Inr ?pu"
    "fetch ?e14 ?pu = Inr ?up"
    "ok ?up \<and> parseTransformParams (searchParams (url example_request)) = Some ?t"
    "isAssetOfType ?e14 (mime_type example_asset) (ASSET_CATEGORIES_IMAGES ?e14) = Inr True"
    "arrayBuffer ?up = Inr [1, 2, 3]
       \<and> (\<exists>e. sharp ?e14 [1, 2, 3]
             ((if num_truthy (width ?t) \<or> num_truthy (height ?t)
               then [Resize (width ?t) (height ?t) ''cover'' True] else [])
              @ [Webp (quality ?t)]) = Inl e)"
    using client(1,2,3,5) tr by simp_all
  note L14 = GET_failure_responses[where req = example_request and env = ?e14
      and a = example_asset and sb = ?sb and pu = ?pu and up = ?up and t = ?t
      and buf = "[1, 2, 3]", THEN conjunct2,
      THEN conjunct2, THEN conjunct1, THEN mp, OF r14, THEN conjunct2, THEN conjunct2, THEN mp,
      OF h14(1), THEN conjunct2, THEN mp, OF h14(2), THEN conjunct2, THEN mp, OF h14(3),
      THEN conjunct2, THEN mp, OF h14(4), THEN conjunct2, THEN mp, OF h14(5)]
  have c14: "GET ?e14 example_request = InternalServerError"
    using h14(6) by (rule L14[THEN conjunct2, THEN mp])
  have r15: "reaches_storage ?e14 ?r15 example_asset"
    using ga path by (intro example_reaches) simp_all
  have "parseInt ''200'' = Finite 200" by code_simp
  then have t15: "parseTransformParams (searchParams (url ?r15)) = Some ?tw"
    by (simp add: parseTransformParams_def get_def or_empty_def parseInt_examples)
  have h15: "ok ?up \<and> parseTransformParams (searchParams (url ?r15)) = Some ?tw"
    "arrayBuffer ?up = Inr [1, 2, 3]
       \<and> (\<exists>e. sharp ?e14 [1, 2, 3]
             ((if num_truthy (width ?tw) \<or> num_truthy (height ?tw)
               then [Resize (width ?tw) (height ?tw) ''cover'' True] else [])
              @ [Webp (quality ?tw)]) = Inl e)"
    using t15 by simp_all
  note L15 = GET_failure_responses[where req = ?r15 and env = ?e14
      and a = example_asset and sb = ?sb and pu = ?pu and up = ?up and t = ?tw
      and buf = "[1, 2, 3]", THEN conjunct2,
      THEN conjunct2, THEN conjunct1, THEN mp, OF r15, THEN conjunct2, THEN conjunct2, THEN mp,
      OF h14(1), THEN conjunct2, THEN mp, OF h14(2), THEN conjunct2, THEN mp, OF h14(3),
      THEN conjunct2, THEN mp, OF h15(1), THEN conjunct2, THEN mp, OF h14(5)]
  have c15: "GET ?e14 ?r15 = InternalServerError"
    using h15(2) by (rule L15[THEN conjunct2, THEN mp])
  show ?thesis
    by (intro conjI c1 c2 c3 c4 c5 c6 c7 c8 c9 c10 c11 c12 c13 c14 c15)
qed

text \<open>
  C3. Let the request get past the lookup with an asset whose canonical path is \<open>cp\<close>.
  If \<open>cp\<close> is there and the requested name differs from the name in \<open>cp\<close>, the response
  is a 301 whose \<open>Location\<close> is the URL built from \<open>cp\<close> on the origin of the request with
  the query string of the request put in unchanged; when the URL constructor leaves the
  path as it is, that is the origin, then \<open>cp\<close>, then the query string. If the names are
  equal, or if there is no canonical path, the request is served by the rest of the
  handler and the response is no 301.
\<close>

theorem GET_canonical_redirect:
  "lookup env req = Inr (Inr a) \<and> getAssetProxyUrl env a = Inr cp \<longrightarrow>
     (truthy cp \<and> join ''/'' (name req) \<noteq> join ''/'' (drop 3 (split (CHR ''/'') (or_empty cp)))
        \<and> newURL env (or_empty cp) (origin (url req)) = Inr u \<longrightarrow>
        GET env req = Response NoBody 301
          [(''Location'', origin u @ pathname u @ search (url req) @ fragment u)]
        \<and> (origin u = origin (url req) \<and> pathname u = or_empty cp \<and> fragment u = [] \<longrightarrow>
             GET env req = Response NoBody 301
               [(''Location'', origin (url req) @ or_empty cp @ search (url req))])) \<and>
     (truthy cp \<and> join ''/'' (name req) = join ''/'' (drop 3 (split (CHR ''/'') (or_empty cp))) \<longrightarrow>
        GET env req = respond (serve env req a) \<and> resp_status (GET env req) \<noteq> 301) \<and>
     (\<not> truthy cp \<longrightarrow>
        GET env req = respond (serve env req a) \<and> resp_status (GET env req) \<noteq> 301)"
proof (intro impI)
  assume h: "lookup env req = Inr (Inr a) \<and> getAssetProxyUrl env a = Inr cp"
  have serve301: "resp_status (respond (serve env req a)) \<noteq> 301"
  proof (cases "serve env req a")
    case (Inl e)
    then show ?thesis by (simp add: respond_def)
  next
    case (Inr r)
    then show ?thesis using serve_status[OF Inr] by (auto simp: respond_def)
  qed
  have pass: "GET env req = respond (serve env req a)"
    if "checkCanonical env req a = Inr None"
    using that h by (intro GET_serve) (simp add: passes_canonical_def)
  have 1: "GET env req = Response NoBody 301
          [(''Location'', origin u @ pathname u @ search (url req) @ fragment u)]"
    if "truthy cp \<and> join ''/'' (name req) \<noteq> join ''/'' (drop 3 (split (CHR ''/'') (or_empty cp)))
        \<and> newURL env (or_empty cp) (origin (url req)) = Inr u"
    using that h
    by (simp add: GET_def GET_try_def checkCanonical_def respond_def Response_redirect_def href_def)
  have 2: "checkCanonical env req a = Inr None"
    if "truthy cp \<and> join ''/'' (name req) = join ''/'' (drop 3 (split (CHR ''/'') (or_empty cp)))"
    using that h by (simp add: checkCanonical_def)
  have 3: "checkCanonical env req a = Inr None" if "\<not> truthy cp"
    using that h by (simp add: checkCanonical_def)
  show "(truthy cp \<and> join ''/'' (name req) \<noteq> join ''/'' (drop 3 (split (CHR ''/'') (or_empty cp)))
        \<and> newURL env (or_empty cp) (origin (url req)) = Inr u \<longrightarrow>
        GET env req = Response NoBody 301
          [(''Location'', origin u @ pathname u @ search (url req) @ fragment u)]
        \<and> (origin u = origin (url req) \<and> pathname u = or_empty cp \<and> fragment u = [] \<longrightarrow>
             GET env req = Response NoBody 301
               [(''Location'', origin (url req) @ or_empty cp @ search (url req))])) \<and>
     (truthy cp \<and> join ''/'' (name req) = join ''/'' (drop 3 (split (CHR ''/'') (or_empty cp))) \<longrightarrow>
        GET env req = respond (serve env req a) \<and> resp_status (GET env req) \<noteq> 301) \<and>
     (\<not> truthy cp \<longrightarrow>
        GET env req = respond (serve env req a) \<and> resp_status (GET env req) \<noteq> 301)"
    using 1 pass[OF 2] pass[OF 3] serve301 by auto
qed

theorem GET_canonical_redirect_witness:
  "lookup example_env (example_request\<lparr> name := [''old-name.png''] \<rparr>) = Inr (Inr example_asset) \<and>
   getAssetProxyUrl example_env example_asset = Inr (Some ''/a/4M9EJZZtPhcA3iTjadiWkD/photo.png'') \<and>
   GET example_env (example_request\<lparr> name := [''old-name.png''] \<rparr>)
     = Response NoBody 301
         [(''Location'', ''https://site.example/a/4M9EJZZtPhcA3iTjadiWkD/photo.png?quality=90'')] \<and>
   lookup example_env example_request = Inr (Inr example_asset) \<and>
   GET example_env example_request = respond (serve example_env example_request example_asset) \<and>
   resp_status (GET example_env example_request) \<noteq> 301 \<and>
   lookup (example_env\<lparr> getAssetProxyUrl := (\<lambda>a. Inr None) \<rparr>)
     (example_request\<lparr> name := [''old-name.png''] \<rparr>) = Inr (Inr example_asset) \<and>
   GET (example_env\<lparr> getAssetProxyUrl := (\<lambda>a. Inr None) \<rparr>)
     (example_request\<lparr> name := [''old-name.png''] \<rparr>)
     = respond (serve (example_env\<lparr> getAssetProxyUrl := (\<lambda>a. Inr None) \<rparr>)
         (example_request\<lparr> name := [''old-name.png''] \<rparr>) example_asset)"
proof -
  let ?cp = "Some ''/a/4M9EJZZtPhcA3iTjadiWkD/photo.png''"
  let ?old = "example_request\<lparr> name := [''old-name.png''] \<rparr>"
  let ?u = "\<lparr> origin = ''https://site.example'', pathname = ''/a/4M9EJZZtPhcA3iTjadiWkD/photo.png'',
             search = [], searchParams = [], fragment = [] \<rparr>"
  let ?e3 = "example_env\<lparr> getAssetProxyUrl := (\<lambda>a. Inr None) \<rparr>"
  have ga: "getAssetForProxy example_env = (\<lambda>assetId. Inr (Some example_asset))"
    by (simp add: example_env_def)
  have l1: "lookup example_env ?old = Inr (Inr example_asset)"
    using example_lookup[OF ga example_asset_path] .
  have l2: "lookup example_env example_request = Inr (Inr example_asset)"
    using example_lookup[OF ga example_asset_path, of "name example_request"] by simp
  have l3: "lookup ?e3 ?old = Inr (Inr example_asset)"
    by (rule example_lookup) (simp_all add: ga example_asset_path)
  have cp: "getAssetProxyUrl example_env example_asset = Inr ?cp"
    by (simp add: example_env_def)
  have cp3: "getAssetProxyUrl ?e3 example_asset = Inr None" by simp
  have tr: "truthy ?cp" "\<not> truthy None" by (simp_all add: truthy_def)
  have names: "join ''/'' (name ?old) \<noteq> join ''/'' (drop 3 (split (CHR ''/'') (or_empty ?cp)))"
    "join ''/'' (name example_request) = join ''/'' (drop 3 (split (CHR ''/'') (or_empty ?cp)))"
    by (simp_all add: example_request_def or_empty_def)
  have nu: "newURL example_env (or_empty ?cp) (origin (url ?old)) = Inr ?u"
    by (simp add: example_env_def example_request_def or_empty_def)
  have u: "origin ?u = origin (url ?old)" "pathname ?u = or_empty ?cp" "fragment ?u = []"
    by (simp_all add: example_request_def or_empty_def)
  have "GET example_env ?old = Response NoBody 301
      [(''Location'', origin (url ?old) @ or_empty ?cp @ search (url ?old))]"
    using GET_canonical_redirect[of example_env ?old example_asset ?cp ?u] l1 cp tr(1) names(1) nu u
    by blast
  then have c1: "GET example_env ?old = Response NoBody 301
      [(''Location'', ''https://site.example/a/4M9EJZZtPhcA3iTjadiWkD/photo.png?quality=90'')]"
    by (simp add: example_request_def or_empty_def)
  have c2: "GET example_env example_request = respond (serve example_env example_request example_asset)
      \<and> resp_status (GET example_env example_request) \<noteq> 301"
    using GET_canonical_redirect[of example_env example_request example_asset ?cp ?u]
      l2 cp tr(1) names(2) by blast
  have c3: "GET ?e3 ?old = respond (serve ?e3 ?old example_asset)"
    using GET_canonical_redirect[of ?e3 ?old example_asset None ?u] l3 cp3 tr(2) by blast
  show ?thesis using l1 cp c1 l2 c2 l3 c3 by blast
qed

text \<open>
  C5, amended. Let the request reach a successful upstream response for an image asset,
  with a quality that parses to a number above 0 and neither a positive width nor a
  positive height. Then a transform is requested, with no dimensions and with that quality
  clamped to at most 100 (\<open>min q 100\<close> for a finite \<open>q\<close>, 100 for an infinite one), and the
  response is what \<open>sharp\<close> makes of the buffer with the single step \<open>webp\<close> at that clamped
  quality: there is no resize step.
\<close>

theorem GET_quality_only:
  "upstream_ok env req a up
   \<and> isAssetOfType env (mime_type a) (ASSET_CATEGORIES_IMAGES env) = Inr True
   \<and> parseInt (or_empty (get (searchParams (url req)) ''quality'')) = qv \<and> gt0 qv
   \<and> \<not> gt0 (parseInt (or_empty (get (searchParams (url req)) ''width'')))
   \<and> \<not> gt0 (parseInt (or_empty (get (searchParams (url req)) ''height'')))
   \<and> arrayBuffer up = Inr buf \<and> sharp env buf [Webp (Math_min qv (Finite 100))] = Inr out \<longrightarrow>
     parseTransformParams (searchParams (url req))
       = Some \<lparr> width = None, height = None, quality = Math_min qv (Finite 100) \<rparr> \<and>
     Math_min qv (Finite 100) = (case qv of Finite q \<Rightarrow> Finite (min q 100) | _ \<Rightarrow> Finite 100) \<and>
     GET env req = Response (Buffer out) 200
       [(''Content-Type'', ''image/webp''), (''Content-Length'', Number_toString (length out))]"
proof
  assume h: "upstream_ok env req a up
   \<and> isAssetOfType env (mime_type a) (ASSET_CATEGORIES_IMAGES env) = Inr True
   \<and> parseInt (or_empty (get (searchParams (url req)) ''quality'')) = qv \<and> gt0 qv
   \<and> \<not> gt0 (parseInt (or_empty (get (searchParams (url req)) ''width'')))
   \<and> \<not> gt0 (parseInt (or_empty (get (searchParams (url req)) ''height'')))
   \<and> arrayBuffer up = Inr buf \<and> sharp env buf [Webp (Math_min qv (Finite 100))] = Inr out"
  then have t: "parseTransformParams (searchParams (url req))
       = Some \<lparr> width = None, height = None, quality = Math_min qv (Finite 100) \<rparr>"
    by (simp add: parseTransformParams_def Let_def)
  have m: "Math_min qv (Finite 100)
      = (case qv of Finite q \<Rightarrow> Finite (min q 100) | _ \<Rightarrow> Finite 100)"
    using h by (intro Math_min_100) simp
  have "passes_canonical env req a" using h by (simp add: upstream_ok_def)
  then have "GET env req = respond (serve env req a)" by (rule GET_serve)
  then have "GET env req = Response (Buffer out) 200
       [(''Content-Type'', ''image/webp''), (''Content-Length'', Number_toString (length out))]"
    using h t serve_fetched[of env req a up]
    by (simp add: resize_def num_truthy_def respond_def)
  then show "parseTransformParams (searchParams (url req))
       = Some \<lparr> width = None, height = None, quality = Math_min qv (Finite 100) \<rparr> \<and>
     Math_min qv (Finite 100) = (case qv of Finite q \<Rightarrow> Finite (min q 100) | _ \<Rightarrow> Finite 100) \<and>
     GET env req = Response (Buffer out) 200
       [(''Content-Type'', ''image/webp''), (''Content-Length'', Number_toString (length out))]"
    using t m by simp
qed

theorem GET_quality_only_witness:
  "upstream_ok example_env example_request example_asset
     \<lparr> ok = True, body = [1, 2, 3], arrayBuffer = Inr [1, 2, 3] \<rparr> \<and>
   isAssetOfType example_env (mime_type example_asset) (ASSET_CATEGORIES_IMAGES example_env)
     = Inr True \<and>
   parseInt (or_empty (get (searchParams (url example_request)) ''quality'')) = Finite 90 \<and>
   \<not> gt0 (parseInt (or_empty (get (searchParams (url example_request)) ''width''))) \<and>
   \<not> gt0 (parseInt (or_empty (get (searchParams (url example_request)) ''height''))) \<and>
   sharp example_env [1, 2, 3] [Webp (Finite 90)] = Inr [3, 2, 1, 90] \<and>
   parseTransformParams (searchParams (url example_request))
     = Some \<lparr> width = None, height = None, quality = Finite 90 \<rparr> \<and>
   GET example_env example_request
     = Response (Buffer [3, 2, 1, 90]) 200
         [(''Content-Type'', ''image/webp''), (''Content-Length'', ''4'')]"
proof -
  let ?up = "\<lparr> ok = True, body = [1, 2, 3], arrayBuffer = Inr [1, 2, 3] \<rparr> :: fetched"
  have ga: "getAssetForProxy example_env = (\<lambda>assetId. Inr (Some example_asset))"
    by (simp add: example_env_def)
  have "passes_canonical example_env example_request example_asset"
    by (rule example_passes_asset) simp_all
  then have h1: "upstream_ok example_env example_request example_asset ?up"
    by (rule example_upstream) simp_all
  have h2: "isAssetOfType example_env (mime_type example_asset) (ASSET_CATEGORIES_IMAGES example_env)
     = Inr True"
    by (simp add: example_env_def example_asset_def or_empty_def)
  have q: "parseInt ''90'' = Finite 90" by code_simp
  have h3: "parseInt (or_empty (get (searchParams (url example_request)) ''quality'')) = Finite 90"
    "\<not> gt0 (parseInt (or_empty (get (searchParams (url example_request)) ''width'')))"
    "\<not> gt0 (parseInt (or_empty (get (searchParams (url example_request)) ''height'')))"
    by (simp_all add: example_request_def get_def or_empty_def q parseInt_examples)
  have h4: "arrayBuffer ?up = Inr [1, 2, 3]" "gt0 (Finite 90)"
    "Math_min (Finite 90) (Finite 100) = Finite 90"
    "sharp example_env [1, 2, 3] [Webp (Math_min (Finite 90) (Finite 100))] = Inr [3, 2, 1, 90]"
    by (simp_all add: example_env_def)
  have n: "Number_toString (length [3, 2, 1, 90 :: 8 word]) = ''4''" by code_simp
  have "parseTransformParams (searchParams (url example_request))
       = Some \<lparr> width = None, height = None, quality = Math_min (Finite 90) (Finite 100) \<rparr> \<and>
     GET example_env example_request = Response (Buffer [3, 2, 1, 90]) 200
       [(''Content-Type'', ''image/webp''),
        (''Content-Length'', Number_toString (length [3, 2, 1, 90 :: 8 word]))]"
    using GET_quality_only[of example_env example_request example_asset ?up "Finite 90"
        "[1, 2, 3]" "[3, 2, 1, 90]"]
      h1 h2 h3 h4(1,2,4) by blast
  then show ?thesis using h1 h2 h3 h4 n by simp
qed

text \<open>
  C5 as stated fails for a quality above 100: \<open>quality=150\<close> is strictly positive, and the
  image is encoded at quality 100, as the last byte of the example output shows.
\<close>

theorem GET_quality_only_counterexample:
  "parseInt (or_empty (get [(''quality'', ''150'')] ''quality'')) = Finite 150 \<and>
   parseTransformParams [(''quality'', ''150'')]
     = Some \<lparr> width = None, height = None, quality = Finite 100 \<rparr> \<and>
   GET example_env
     (example_request\<lparr> url := (url example_request)
        \<lparr> search := ''?quality=150'', searchParams := [(''quality'', ''150'')] \<rparr> \<rparr>)
     = Response (Buffer [3, 2, 1, 100]) 200
         [(''Content-Type'', ''image/webp''), (''Content-Length'', ''4'')]"
proof -
  let ?up = "\<lparr> ok = True, body = [1, 2, 3], arrayBuffer = Inr [1, 2, 3] \<rparr> :: fetched"
  let ?req = "example_request\<lparr> url := (url example_request)
        \<lparr> search := ''?quality=150'', searchParams := [(''quality'', ''150'')] \<rparr> \<rparr>"
  let ?t = "\<lparr> width = None, height = None, quality = Finite 100 \<rparr>"
  have ga: "getAssetForProxy example_env = (\<lambda>assetId. Inr (Some example_asset))"
    by (simp add: example_env_def)
  have "lookup example_env ?req = Inr (Inr example_asset)"
    using ga example_asset_path by (simp add: lookup_def example_decode example_request_def)
  then have p: "passes_canonical example_env ?req example_asset"
    by (simp add: passes_canonical_def checkCanonical_def
        example_request_def example_env_def truthy_def or_empty_def)
  then have u: "upstream_ok example_env ?req example_asset ?up"
    by (simp add: upstream_ok_def example_env_def)
  have q: "parseInt (or_empty (get [(''quality'', ''150'')] ''quality'')) = Finite 150"
    by (simp add: get_def or_empty_def parseInt_examples)
  have t: "parseTransformParams [(''quality'', ''150'')] = Some ?t"
    by (simp add: parseTransformParams_def get_def or_empty_def parseInt_examples)
  have i: "isAssetOfType example_env (mime_type example_asset) (ASSET_CATEGORIES_IMAGES example_env)
     = Inr True"
    by (simp add: example_env_def example_asset_def or_empty_def)
  have n: "Number_toString (length [3, 2, 1, 100 :: 8 word]) = ''4''" by code_simp
  have r: "resize ?up ?t example_env = Inr (Response (Buffer [3, 2, 1, 100]) 200
      [(''Content-Type'', ''image/webp''),
       (''Content-Length'', Number_toString (length [3, 2, 1, 100 :: 8 word]))])"
    by (simp add: resize_def num_truthy_def example_env_def)
  have "serve example_env ?req example_asset = resize ?up ?t example_env"
    using serve_fetched[OF u] t i by simp
  then have "GET example_env ?req = Response (Buffer [3, 2, 1, 100]) 200
      [(''Content-Type'', ''image/webp''), (''Content-Length'', ''4'')]"
    using GET_serve[OF p] r n by (simp add: respond_def)
  then show ?thesis using q t by simp
qed

text \<open>
  C8. Let the request reach a successful upstream response for an asset that is not an
  image, whatever the query holds. Then the response is the upstream body as it is, with
  status 200 and the stored MIME type as content type, or \<open>application/octet-stream\<close> when
  there is none; and it is the same whatever \<open>sharp\<close> would do, so no transcoding takes
  part in it.
\<close>

theorem GET_non_image_passthrough:
  "upstream_ok env req a up
   \<and> isAssetOfType env (mime_type a) (ASSET_CATEGORIES_IMAGES env) = Inr False \<longrightarrow>
     GET env req = Response (Stream (body up)) 200
       [(''Content-Type'',
         if truthy (mime_type a) then or_empty (mime_type a) else ''application/octet-stream'')] \<and>
     (\<forall>f. GET (env\<lparr> sharp := f \<rparr>) req = GET env req)"
proof
  assume h: "upstream_ok env req a up
   \<and> isAssetOfType env (mime_type a) (ASSET_CATEGORIES_IMAGES env) = Inr False"
  have r: "GET e req = Response (Stream (body up)) 200
       [(''Content-Type'',
         if truthy (mime_type a) then or_empty (mime_type a) else ''application/octet-stream'')]"
    if "upstream_ok e req a up"
      "isAssetOfType e (mime_type a) (ASSET_CATEGORIES_IMAGES e) = Inr False" for e :: "'a env"
  proof -
    have "passes_canonical e req a" using that by (simp add: upstream_ok_def)
    then have "GET e req = respond (serve e req a)" by (rule GET_serve)
    then show ?thesis
      using that serve_fetched[of e req a up]
      by (simp add: passthrough_def respond_def split: option.splits)
  qed
  have "lookup (env\<lparr> sharp := f \<rparr>) req = lookup env req" for f
    by (simp add: lookup_def split: sum.splits option.splits)
  moreover have "checkCanonical (env\<lparr> sharp := f \<rparr>) req a = checkCanonical env req a" for f
    by (simp add: checkCanonical_def split: sum.splits option.splits)
  ultimately have u: "upstream_ok (env\<lparr> sharp := f \<rparr>) req a up" for f
    using h by (auto simp: upstream_ok_def passes_canonical_def split: sum.splits option.splits)
  show "GET env req = Response (Stream (body up)) 200
       [(''Content-Type'',
         if truthy (mime_type a) then or_empty (mime_type a) else ''application/octet-stream'')] \<and>
     (\<forall>f. GET (env\<lparr> sharp := f \<rparr>) req = GET env req)"
    using r[of env] r[OF u] h by simp
qed

theorem GET_non_image_passthrough_witness:
  "upstream_ok
     (example_env\<lparr> getAssetForProxy :=
        (\<lambda>assetId. Inr (Some (example_asset\<lparr> mime_type := Some ''application/pdf'' \<rparr>))) \<rparr>)
     example_request (example_asset\<lparr> mime_type := Some ''application/pdf'' \<rparr>)
     \<lparr> ok = True, body = [1, 2, 3], arrayBuffer = Inr [1, 2, 3] \<rparr> \<and>
   parseTransformParams (searchParams (url example_request))
     = Some \<lparr> width = None, height = None, quality = Finite 90 \<rparr> \<and>
   GET (example_env\<lparr> getAssetForProxy :=
        (\<lambda>assetId. Inr (Some (example_asset\<lparr> mime_type := Some ''application/pdf'' \<rparr>))) \<rparr>)
     example_request
     = Response (Stream [1, 2, 3]) 200 [(''Content-Type'', ''application/pdf'')] \<and>
   GET (example_env\<lparr> getAssetForProxy :=
        (\<lambda>assetId. Inr (Some (example_asset\<lparr> mime_type := None \<rparr>))) \<rparr>)
     example_request
     = Response (Stream [1, 2, 3]) 200 [(''Content-Type'', ''application/octet-stream'')]"
proof -
  let ?up = "\<lparr> ok = True, body = [1, 2, 3], arrayBuffer = Inr [1, 2, 3] \<rparr> :: fetched"
  let ?pdf = "example_asset\<lparr> mime_type := Some ''application/pdf'' \<rparr>"
  let ?raw = "example_asset\<lparr> mime_type := None \<rparr>"
  let ?e1 = "example_env\<lparr> getAssetForProxy := (\<lambda>assetId. Inr (Some ?pdf)) \<rparr>"
  let ?e2 = "example_env\<lparr> getAssetForProxy := (\<lambda>assetId. Inr (Some ?raw)) \<rparr>"
  have "passes_canonical ?e1 example_request ?pdf"
    by (rule example_passes) (simp_all add: example_asset_def truthy_def)
  then have u1: "upstream_ok ?e1 example_request ?pdf ?up"
    by (rule example_upstream) simp_all
  have "passes_canonical ?e2 example_request ?raw"
    by (rule example_passes) (simp_all add: example_asset_def truthy_def)
  then have u2: "upstream_ok ?e2 example_request ?raw ?up"
    by (rule example_upstream) simp_all
  have i1: "isAssetOfType ?e1 (mime_type ?pdf) (ASSET_CATEGORIES_IMAGES ?e1) = Inr False"
    by (simp add: example_env_def or_empty_def)
  have i2: "isAssetOfType ?e2 (mime_type ?raw) (ASSET_CATEGORIES_IMAGES ?e2) = Inr False"
    by (simp add: example_env_def or_empty_def)
  have c1: "GET ?e1 example_request = Response (Stream (body ?up)) 200
       [(''Content-Type'',
         if truthy (mime_type ?pdf) then or_empty (mime_type ?pdf) else ''application/octet-stream'')]"
    using GET_non_image_passthrough[of ?e1 example_request ?pdf ?up] u1 i1 by blast
  have c2: "GET ?e2 example_request = Response (Stream (body ?up)) 200
       [(''Content-Type'',
         if truthy (mime_type ?raw) then or_empty (mime_type ?raw) else ''application/octet-stream'')]"
    using GET_non_image_passthrough[of ?e2 example_request ?raw ?up] u2 i2 by blast
  show ?thesis
    using u1 example_transform c1 c2 by (simp add: truthy_def or_empty_def)
qed


end
